theory Spec2Isabelle
  imports
    Main
    "HOL-Library.Char_ord"
    "HOL-Library.List_Lexorder"
    "HOL-Library.Multiset"
begin

section \<open>Python text primitives\<close>

text \<open>
  A Python \<open>str\<close> is a sequence of code points. The model uses \<^typ>\<open>string\<close>, whose
  characters are the 256 code points U+0000 to U+00FF (\<^term>\<open>of_char c :: nat\<close> is the code
  point), so \<^term>\<open>length\<close> and \<^term>\<open>take\<close> count what Python's \<open>len\<close> and slicing
  count. The separator of the feed entries, U+00B7, lies in that range. The character
  classes below are Python's on that range.
\<close>

definition py_isspace :: "char \<Rightarrow> bool" where
  \<comment> \<open>\<open>str.isspace\<close> on one character; also the class \<open>\s\<close> of \<open>re\<close> on \<open>str\<close> patterns\<close>
  "py_isspace c =
     (let n = (of_char c :: nat)
      in (9 \<le> n \<and> n \<le> 13) \<or> (28 \<le> n \<and> n \<le> 32) \<or> n = 133 \<or> n = 160)"

definition py_isdigit :: "char \<Rightarrow> bool" where
  \<comment> \<open>\<open>str.isdigit\<close> on one character: the decimal digits and the superscripts 1, 2, 3\<close>
  "py_isdigit c =
     (let n = (of_char c :: nat)
      in (48 \<le> n \<and> n \<le> 57) \<or> n = 178 \<or> n = 179 \<or> n = 185)"

definition re_digit :: "char \<Rightarrow> bool" where
  \<comment> \<open>the class \<open>\d\<close>: decimal digits only\<close>
  "re_digit c = (let n = (of_char c :: nat) in 48 \<le> n \<and> n \<le> 57)"

definition re_upper :: "char \<Rightarrow> bool" where
  \<comment> \<open>the class \<open>[A-Z]\<close>\<close>
  "re_upper c = (let n = (of_char c :: nat) in 65 \<le> n \<and> n \<le> 90)"

definition re_lower :: "char \<Rightarrow> bool" where
  \<comment> \<open>the class \<open>[a-z]\<close>\<close>
  "re_lower c = (let n = (of_char c :: nat) in 97 \<le> n \<and> n \<le> 122)"

definition re_dot :: "char \<Rightarrow> bool" where
  \<comment> \<open>\<open>.\<close> without DOTALL: anything but a newline\<close>
  "re_dot c = (c \<noteq> CHR 0x0A)"

definition lower_char :: "char \<Rightarrow> char" where
  "lower_char c =
     (let n = (of_char c :: nat)
      in if (65 \<le> n \<and> n \<le> 90) \<or> (192 \<le> n \<and> n \<le> 222 \<and> n \<noteq> 215)
         then char_of (n + 32) else c)"

definition py_lower :: "string \<Rightarrow> string" where
  "py_lower s = map lower_char s"

definition py_strip :: "string \<Rightarrow> string" where
  "py_strip s = rev (dropWhile py_isspace (rev (dropWhile py_isspace s)))"

definition str_isdigit :: "string \<Rightarrow> bool" where
  \<comment> \<open>\<open>s.isdigit()\<close>: every character is a digit and there is at least one\<close>
  "str_isdigit s = (s \<noteq> [] \<and> list_all py_isdigit s)"

fun startswith :: "string \<Rightarrow> string \<Rightarrow> bool" where
  "startswith s [] = True"
| "startswith [] (p # ps) = False"
| "startswith (c # cs) (p # ps) = (c = p \<and> startswith cs ps)"

fun py_find :: "string \<Rightarrow> string \<Rightarrow> nat option" where
  \<comment> \<open>\<open>s.find(sub)\<close>, with \<open>None\<close> for Python's \<open>-1\<close>\<close>
  "py_find [] sub = (if sub = [] then Some 0 else None)"
| "py_find (c # cs) sub =
     (if startswith (c # cs) sub then Some 0 else map_option Suc (py_find cs sub))"

definition py_in :: "string \<Rightarrow> string \<Rightarrow> bool" where
  \<comment> \<open>\<open>sub in s\<close>\<close>
  "py_in sub s = (py_find s sub \<noteq> None)"

lemma startswith_length: "startswith s p \<Longrightarrow> length p \<le> length s"
  by (induction s p rule: startswith.induct) auto

lemma py_find_bound: "py_find s sub = Some i \<Longrightarrow> i + length sub \<le> length s"
proof (induction s arbitrary: i)
  case Nil
  then show ?case by (simp split: if_splits)
next
  case (Cons c cs)
  show ?case
  proof (cases "startswith (c # cs) sub")
    case True
    with Cons.prems startswith_length [OF True] show ?thesis by simp
  next
    case False
    with Cons.prems obtain j where "py_find cs sub = Some j" "i = Suc j" by auto
    with Cons.IH show ?thesis by simp
  qed
qed

function py_split :: "string \<Rightarrow> string \<Rightarrow> string list" where
  \<comment> \<open>\<open>s.split(sep)\<close> for a non-empty separator (every call site passes a literal one;
      Python raises \<open>ValueError\<close> on an empty separator)\<close>
  "py_split s sep =
     (case py_find s sep of
        None \<Rightarrow> [s]
      | Some i \<Rightarrow>
          if sep = [] then [s]
          else take i s # py_split (drop (i + length sep) s) sep)"
  by pat_completeness auto
termination
proof (relation "measure (\<lambda>(s, sep). length s)")
  show "wf (measure (\<lambda>(s, sep). length s))" by simp
next
  fix s sep :: string and i
  assume f: "py_find s sep = Some i" and ne: "sep \<noteq> []"
  from ne have "0 < length sep" by simp
  with py_find_bound [OF f] have "length s - (i + length sep) < length s" by arith
  then show "((drop (i + length sep) s, sep), (s, sep)) \<in> measure (\<lambda>(s, sep). length s)"
    by simp
qed

declare py_split.simps [simp del]

definition py_split1 :: "string \<Rightarrow> string \<Rightarrow> string list" where
  \<comment> \<open>\<open>s.split(sep, 1)\<close>: at most one cut\<close>
  "py_split1 s sep =
     (case py_find s sep of
        None \<Rightarrow> [s]
      | Some i \<Rightarrow> [take i s, drop (i + length sep) s])"

fun py_join :: "string \<Rightarrow> string list \<Rightarrow> string" where
  \<comment> \<open>\<open>sep.join(xs)\<close>\<close>
  "py_join sep [] = []"
| "py_join sep [x] = x"
| "py_join sep (x # y # ys) = x @ sep @ py_join sep (y # ys)"

text \<open>
  The report is written with pictographs beyond U+00FF, and title-casing can leave that
  range too: the text of a report is a list of code points, and \<open>uni\<close> takes a string
  into it.
\<close>

type_synonym unicode = "nat list"

definition uni :: "string \<Rightarrow> unicode" where
  "uni s = map of_char s"


section \<open>Regular expressions of the extractor\<close>

text \<open>
  The patterns of the source are sequences of character classes (once, starred, lazily
  starred or optional), alternations of literals and the anchor \<open>$\<close>. \<open>rmatch r s\<close> is
  the backtracking match of \<open>r\<close> at the start of \<open>s\<close>, in the order Python's engine tries
  (greedy: longest first; lazy: shortest first; alternatives left to right), and returns
  the number of characters of the first match found.
\<close>

datatype re_item =
    One "char \<Rightarrow> bool"
  | Star "char \<Rightarrow> bool"
  | Lazy "char \<Rightarrow> bool"
  | Opt "char \<Rightarrow> bool"
  | Alt "string list"
  | Dollar

fun re_weight :: "re_item \<Rightarrow> nat" where
  "re_weight (Alt ls) = Suc (length ls)"
| "re_weight _ = 1"

function (sequential) rmatch :: "re_item list \<Rightarrow> string \<Rightarrow> nat option" where
  "rmatch [] s = Some 0"
| "rmatch (One p # r) [] = None"
| "rmatch (One p # r) (c # cs) = (if p c then map_option Suc (rmatch r cs) else None)"
| "rmatch (Star p # r) [] = rmatch r []"
| "rmatch (Star p # r) (c # cs) =
     (if p c
      then (case rmatch (Star p # r) cs of
              Some n \<Rightarrow> Some (Suc n)
            | None \<Rightarrow> rmatch r (c # cs))
      else rmatch r (c # cs))"
| "rmatch (Lazy p # r) [] = rmatch r []"
| "rmatch (Lazy p # r) (c # cs) =
     (case rmatch r (c # cs) of
        Some n \<Rightarrow> Some n
      | None \<Rightarrow> if p c then map_option Suc (rmatch (Lazy p # r) cs) else None)"
| "rmatch (Opt p # r) [] = rmatch r []"
| "rmatch (Opt p # r) (c # cs) =
     (if p c
      then (case rmatch r cs of
              Some n \<Rightarrow> Some (Suc n)
            | None \<Rightarrow> rmatch r (c # cs))
      else rmatch r (c # cs))"
| "rmatch (Alt [] # r) s = None"
| "rmatch (Alt (l # ls) # r) s =
     (if startswith s l
      then (case rmatch r (drop (length l) s) of
              Some n \<Rightarrow> Some (length l + n)
            | None \<Rightarrow> rmatch (Alt ls # r) s)
      else rmatch (Alt ls # r) s)"
| "rmatch (Dollar # r) s = (if s = [] \<or> s = [CHR 0x0A] then rmatch r s else None)"
  by pat_completeness auto
termination
  by (relation "measures [\<lambda>(r, s). sum_list (map re_weight r), \<lambda>(r, s). length s]") auto

fun re_search :: "re_item list \<Rightarrow> string \<Rightarrow> (nat \<times> nat) option" where
  \<comment> \<open>\<open>re.search\<close>: start and length of the leftmost match\<close>
  "re_search r [] = map_option (\<lambda>n. (0, n)) (rmatch r [])"
| "re_search r (c # cs) =
     (case rmatch r (c # cs) of
        Some n \<Rightarrow> Some (0, n)
      | None \<Rightarrow> map_option (\<lambda>(i, n). (Suc i, n)) (re_search r cs))"


lemma rmatch_bound: "rmatch r s = Some n \<Longrightarrow> n \<le> length s"
proof (induction r s arbitrary: n rule: rmatch.induct)
  case (11 l ls r s)
  then show ?case
    using startswith_length [of s l]
    by (auto split: if_splits option.splits)
qed (auto split: if_splits option.splits)

lemma re_search_bound: "re_search r s = Some (i, n) \<Longrightarrow> i + n \<le> length s"
proof (induction s arbitrary: i)
  case Nil
  then show ?case by (auto dest: rmatch_bound)
next
  case (Cons c cs)
  then show ?case
    by (fastforce split: option.splits dest: rmatch_bound)
qed

function re_sub :: "re_item list \<Rightarrow> string \<Rightarrow> string" where
  \<comment> \<open>\<open>re.sub(r, '', s)\<close> for a pattern that matches no empty string: every
      non-overlapping match, leftmost first, is deleted\<close>
  "re_sub r s =
     (case re_search r s of
        None \<Rightarrow> s
      | Some (i, n) \<Rightarrow> if n = 0 then s else take i s @ re_sub r (drop (i + n) s))"
  by pat_completeness auto
termination
proof (relation "measure (\<lambda>(r, s). length s)")
  show "wf (measure (\<lambda>(r, s). length s))" by simp
next
  fix r s x i n
  assume "re_search r s = Some x" "(i, n) = x" "n \<noteq> 0"
  then have "i + n \<le> length s" "0 < n" by (auto dest: re_search_bound)
  then have "length s - (i + n) < length s" by arith
  then show "((r, drop (i + n) s), (r, s)) \<in> measure (\<lambda>(r, s). length s)" by simp
qed

declare re_sub.simps [simp del]

definition re_sub_start :: "re_item list \<Rightarrow> string \<Rightarrow> string" where
  \<comment> \<open>\<open>re.sub('^' + r, '', s)\<close>: the anchor lets the pattern match at position 0 only\<close>
  "re_sub_start r s = (case rmatch r s of None \<Rightarrow> s | Some n \<Rightarrow> drop n s)"

definition lit :: "char \<Rightarrow> re_item" where
  "lit a = One (\<lambda>c. c = a)"


section \<open>Posts and the extractor\<close>

text \<open>
  The verdict dictionary of the classifier, read with \<open>.get\<close>: \<open>relevant\<close> is the truth
  value of \<open>analysis.get('relevant', False)\<close>; the value under \<open>service_type\<close> is
  missing, a string, or another JSON value (\<open>null\<close>, a number, a list, an object), on
  which \<open>.replace\<close> raises; \<open>reason\<close>, which is only printed, is absent or its text.
\<close>

datatype field = Missing | Str string | NotStr

record analysis =
  relevant :: bool
  service_type :: field
  reason :: "string option"

text \<open>
  A post dictionary. The key \<open>'text'\<close> is the field \<open>ptext\<close>; \<open>scroll_found\<close> and
  \<open>analysis\<close> are absent until the harvest loop and the filter set them.
\<close>

record post =
  ptext :: string
  author :: string
  url :: string
  search_term :: string
  debug_full_text :: string
  scroll_found :: "nat option"
  analysis :: "analysis option"

text \<open>
  What the extractor reads from one post container of the parsed page:
  \<open>container.get_text(strip=True)\<close> and the \<open>href\<close> of its link of class
  \<open>BaseLink__kjvg670\<close>, if there is one.
\<close>

record container =
  full_text :: string
  href :: "string option"

definition sep_dot :: string where
  \<comment> \<open>the separator \<open>' \<cdot> '\<close>: space, U+00B7, space\<close>
  "sep_dot = [CHR '' '', CHR 0xB7, CHR '' '']"

definition locations :: "string list" where
  "locations =
     [''West Studio City'', ''Studio City'', ''Sherman Oaks'', ''Panorama City'',
      ''Mandeville Canyon'', ''Cahuenga Pass'', ''Brentwood Place'', ''West Hills'',
      ''North Hollywood'', ''Valley Village'', ''Los Angeles'', ''West LA'', ''Encino'',
      ''Tarzana'', ''Burbank'', ''Brentwood'', ''Palisades'', ''The Highlands'', ''Glendale'',
      ''Pasadena'', ''Beverly Hills'', ''WeHo'', ''Kenter'', ''Central'']"

definition ca_suffix :: "re_item list" where
  \<comment> \<open>\<open>\s*(CA|California)\s*$\<close>\<close>
  "ca_suffix = [Star py_isspace, Alt [''CA'', ''California''], Star py_isspace, Dollar]"

text \<open>
  The three reply patterns, in the order of the source:
  \<^verbatim>\<open>(\d+)([A-Z][a-z]*\s*[A-Z][a-z]*.*?(?:Los Angeles|Studio City|...|Glendale))\<close>,
  \<^verbatim>\<open>(\d{2,})([A-Z][A-Z][a-z])\<close> and
  \<^verbatim>\<open>(\d+\s*hr?\s*ago)([A-Z][a-z]+ [A-Z])\<close>.
\<close>

definition reply_patterns :: "re_item list list" where
  "reply_patterns =
     [ [One re_digit, Star re_digit, One re_upper, Star re_lower, Star py_isspace,
        One re_upper, Star re_lower, Lazy re_dot,
        Alt [''Los Angeles'', ''Studio City'', ''Sherman Oaks'', ''Encino'', ''Burbank'',
             ''Panorama City'', ''Mandeville'', ''Cahuenga'', ''Brentwood'', ''Palisades'',
             ''Highlands'', ''West'', ''Central'', ''Kenter'', ''WeHo'', ''Glendale'']],
       [One re_digit, One re_digit, Star re_digit, One re_upper, One re_upper, One re_lower],
       [One re_digit, Star re_digit, Star py_isspace, lit CHR ''h'', Opt (\<lambda>c. c = CHR ''r''),
        Star py_isspace, Alt [''ago''], One re_upper, One re_lower, Star re_lower,
        lit CHR '' '', One re_upper] ]"

definition leading_number :: "re_item list" where
  \<comment> \<open>\<open>\d+\s*\<close>, used under the anchor \<open>^\<close>\<close>
  "leading_number = [One re_digit, Star re_digit, Star py_isspace]"

definition trailing_number :: "re_item list" where
  \<comment> \<open>\<open>\d+\s*$\<close>\<close>
  "trailing_number = [One re_digit, Star re_digit, Star py_isspace, Dollar]"

definition reply_indicators :: "string list" where
  "reply_indicators =
     [''@'', ''Reply to'', ''Thanks'', ''Thank you'', ''Yes'', ''No'', ''Agree'', ''Same here'']"

fun author_before_location :: "string \<Rightarrow> string list \<Rightarrow> string" where
  \<comment> \<open>the loop over \<open>locations\<close>: the first location found at a positive index cuts the
      name; the name is the whole string when there is none\<close>
  "author_before_location author_location [] = author_location"
| "author_before_location author_location (location # rest) =
     (if py_in location author_location
      then (case py_find author_location location of
              Some loc_index \<Rightarrow>
                if loc_index > 0 then py_strip (take loc_index author_location)
                else author_before_location author_location rest
            | None \<Rightarrow> author_before_location author_location rest)
      else author_before_location author_location rest)"

fun cut_reply :: "string \<Rightarrow> re_item list list \<Rightarrow> string" where
  \<comment> \<open>the loop over \<open>reply_patterns\<close>: the first pattern that matches cuts the text at
      the start of its match\<close>
  "cut_reply post_text [] = post_text"
| "cut_reply post_text (pattern # rest) =
     (case re_search pattern post_text of
        Some (start, n) \<Rightarrow> py_strip (take start post_text)
      | None \<Rightarrow> cut_reply post_text rest)"

definition author_and_text :: "string \<Rightarrow> string \<times> string" where
  \<comment> \<open>the author name and the post text before the final clean-up\<close>
  "author_and_text full =
     (case py_split full sep_dot of
        part0 # part1 # parts \<Rightarrow>
          let author_location = py_strip part0;
              author_name =
                (if py_in '', CA'' author_location
                 then py_strip (case py_split author_location '', CA'' of
                                  [] \<Rightarrow> [] | a # _ \<Rightarrow> a)
                 else py_strip (re_sub ca_suffix
                                  (author_before_location author_location locations)));
              remaining = py_join sep_dot (part1 # parts);
              post_text =
                (if py_in '' ago'' remaining
                 then (case py_split1 remaining '' ago'' of
                         [_, after] \<Rightarrow> py_strip after
                       | _ \<Rightarrow> [])
                 else remaining);
              post_text =
                (if post_text \<noteq> [] then cut_reply post_text reply_patterns else post_text)
          in (author_name, post_text)
      | _ \<Rightarrow> ([], full))"

definition clean_text :: "string \<Rightarrow> string" where
  \<comment> \<open>leading and trailing numbers removed, then stripped\<close>
  "clean_text post_text =
     (if post_text \<noteq> []
      then py_strip (re_sub trailing_number (re_sub_start leading_number post_text))
      else post_text)"

definition extract_container :: "container \<Rightarrow> post option" where
  \<comment> \<open>the body of the loop over the containers; \<open>None\<close> is a container skipped\<close>
  "extract_container c =
     (let post_url = (case href c of
                        Some h \<Rightarrow> if h \<noteq> [] then ''https://nextdoor.com'' @ h else []
                      | None \<Rightarrow> []);
          full = full_text c
      in if py_in ''Traffic Alerts'' full \<or> full = [] then None
         else
           let (author_name, raw_text) = author_and_text full;
               post_text = clean_text raw_text
           in if author_name = [] \<or> post_text = [] \<or> length post_text < 20 then None
              else if length post_text > 30 \<and> author_name \<noteq> ''Unknown''
              then
                (let is_main_post =
                       (\<not> length post_text < 40 \<and>
                        \<not> list_ex (\<lambda>indicator. py_in indicator (take 30 post_text))
                             reply_indicators)
                 in if is_main_post
                    then Some \<lparr>ptext = post_text, author = author_name, url = post_url,
                               search_term = [], debug_full_text = take 200 full,
                               scroll_found = None, analysis = None\<rparr>
                    else None)
              else None)"

definition text_key :: "post \<Rightarrow> string" where
  \<comment> \<open>\<open>post['text'][:50].lower().strip()\<close>\<close>
  "text_key p = py_strip (py_lower (take 50 (ptext p)))"

fun remove_duplicates :: "post list \<Rightarrow> string set \<Rightarrow> post list" where
  \<comment> \<open>the loop with \<open>seen_texts\<close>: the first post of every key is kept\<close>
  "remove_duplicates [] seen_texts = []"
| "remove_duplicates (p # ps) seen_texts =
     (if text_key p \<notin> seen_texts
      then p # remove_duplicates ps (insert (text_key p) seen_texts)
      else remove_duplicates ps seen_texts)"

text \<open>
  One rendered page as the extractor sees it: whether the main content area exists, and the
  containers each rung of the selector ladder finds (\<open>by_ai\<close> is what the selector
  proposed by the model finds, empty when the proposal fails). \<open>None\<close> stands for a page
  whose reading raises; the extractor catches that and returns no posts.
\<close>

record page =
  main_content :: bool
  by_testid :: "container list"
  by_class :: "container list"
  by_view_type :: "container list"
  by_ai :: "container list"

definition post_containers :: "page \<Rightarrow> container list" where
  "post_containers pg =
     (if by_testid pg \<noteq> [] then by_testid pg
      else if by_class pg \<noteq> [] then by_class pg
      else if by_view_type pg \<noteq> [] then by_view_type pg
      else by_ai pg)"

definition extract_nextdoor_posts :: "page option \<Rightarrow> post list" where
  "extract_nextdoor_posts src =
     (case src of
        None \<Rightarrow> []
      | Some pg \<Rightarrow>
          if \<not> main_content pg then []
          else remove_duplicates (List.map_filter extract_container (post_containers pg)) {})"


section \<open>The harvest loop\<close>

text \<open>
  The feed as the loop meets it: the page rendered at each scroll (scrolls are numbered
  from 1, as \<open>scroll_count\<close> is), and whether a driver script raises there: the reading
  of the page height at the start of the scroll, or one of the scripts of the scrolling
  part that follows the stagnation test. The random scrolling, the height retries and the
  dismissal of overlays change the browser only; what they do to the posts is in the next
  page.
\<close>

datatype 'a outcome = Return 'a | Raise

record feed =
  page_at :: "nat \<Rightarrow> page option"
  height_raises :: "nat \<Rightarrow> bool"
  scroll_raises :: "nat \<Rightarrow> bool"

fun add_new_posts :: "nat \<Rightarrow> post list \<Rightarrow> post list \<Rightarrow> post list \<times> nat" where
  \<comment> \<open>the loop over the extracted posts: a post whose first 50 characters equal those of
      no post collected so far is appended; the result is the list and the number added\<close>
  "add_new_posts scroll_count [] all_posts = (all_posts, 0)"
| "add_new_posts scroll_count (p # ps) all_posts =
     (if \<not> list_ex (\<lambda>existing. take 50 (ptext existing) = take 50 (ptext p)) all_posts
      then (case add_new_posts scroll_count ps
                   (all_posts @ [p\<lparr>scroll_found := Some scroll_count\<rparr>]) of
              (all_posts', new_posts_added) \<Rightarrow> (all_posts', new_posts_added + 1))
      else add_new_posts scroll_count ps all_posts)"

function scroll_loop ::
  "feed \<Rightarrow> nat \<Rightarrow> nat \<Rightarrow> nat \<Rightarrow> post list \<Rightarrow> post list outcome \<times> nat" where
  \<comment> \<open>the \<open>while\<close> loop from a given state; the second component is \<open>scroll_count\<close> at
      the exit, the number of iterations begun\<close>
  "scroll_loop fd max_scrolls scroll_count no_new_posts_count all_posts =
     (if scroll_count < max_scrolls
      then
        (let scroll_count = scroll_count + 1
         in if height_raises fd scroll_count then (Raise, scroll_count)
            else
              (let posts = extract_nextdoor_posts (page_at fd scroll_count);
                   (all_posts, new_posts_added) = add_new_posts scroll_count posts all_posts;
                   no_new_posts_count =
                     (if new_posts_added = 0 then no_new_posts_count + 1 else 0)
               in if no_new_posts_count \<ge> 3 then (Return all_posts, scroll_count)
                  else if scroll_raises fd scroll_count then (Raise, scroll_count)
                  else scroll_loop fd max_scrolls scroll_count no_new_posts_count all_posts))
      else (Return all_posts, scroll_count))"
  by pat_completeness auto
termination
  by (relation "measure (\<lambda>(fd, max_scrolls, scroll_count, n, ps). max_scrolls - scroll_count)")
    auto

declare scroll_loop.simps [simp del]

definition scroll_and_collect_posts :: "feed \<Rightarrow> nat \<Rightarrow> post list outcome \<times> nat" where
  "scroll_and_collect_posts fd max_scrolls = scroll_loop fd max_scrolls 0 0 []"

definition default_max_scrolls :: nat where
  \<comment> \<open>the default of the parameter, which the only call takes\<close>
  "default_max_scrolls = 20"

section \<open>The credential pool and the classifier\<close>

text \<open>
  \<open>BulqitGroqClient\<close>: the keys, the cursor, the key the current client object was built
  with, and the request counter. \<open>requests\<close> is a record of the calls made: the key of
  every completion request sent so far, in order.
\<close>

record groq_client =
  api_keys :: "string list"
  current_key_index :: nat
  client :: string
  daily_request_count :: nat
  requests :: "string list"

definition new_client :: "string list \<Rightarrow> groq_client option" where
  \<comment> \<open>the end of the constructor, once the keys are loaded: no key is a \<open>ValueError\<close>\<close>
  "new_client keys =
     (case keys of
        [] \<Rightarrow> None
      | k # _ \<Rightarrow> Some \<lparr>api_keys = keys, current_key_index = 0, client = k,
                       daily_request_count = 0, requests = []\<rparr>)"

definition rotate_api_key :: "groq_client \<Rightarrow> bool \<times> groq_client" where
  "rotate_api_key g =
     (if int (current_key_index g) < int (length (api_keys g)) - 1
      then (True, g\<lparr>current_key_index := current_key_index g + 1,
                     client := api_keys g ! (current_key_index g + 1),
                     daily_request_count := 0\<rparr>)
      else (False, g))"

text \<open>
  The remote model answers a completion request with a text or the request raises; the
  \<open>n\<close>-th request of the run, for a given post text and author, gets \<open>completion n\<close>.
  \<open>json_loads\<close> is the JSON parser: the error message when it raises, otherwise the
  value, of which the filter reads an object's \<open>relevant\<close>, \<open>service_type\<close> and \<open>reason\<close>.
\<close>

datatype reply = Completion string | Failure string

datatype json = JObject analysis | JOther

record groq_service =
  completion :: "nat \<Rightarrow> string \<Rightarrow> string \<Rightarrow> reply"
  json_loads :: "string \<Rightarrow> string + json"

definition fence_json :: string where
  "fence_json = ''```json''"

definition fence :: string where
  "fence = ''```''"

definition json_object_pattern :: "re_item list" where
  \<comment> \<open>an opening brace, anything (DOTALL, greedy), a closing brace\<close>
  "json_object_pattern = [One (\<lambda>c. c = CHR 0x7B), Star (\<lambda>c. True), One (\<lambda>c. c = CHR 0x7D)]"

definition first_part :: "string list \<Rightarrow> string" where
  \<comment> \<open>\<open>parts[0]\<close> of a split, which is never empty\<close>
  "first_part parts = (case parts of [] \<Rightarrow> [] | a # _ \<Rightarrow> a)"

definition second_part :: "string list \<Rightarrow> string" where
  \<comment> \<open>\<open>parts[1]\<close> of a split by a separator that occurs in the string\<close>
  "second_part parts = (case parts of _ # b # _ \<Rightarrow> b | _ \<Rightarrow> [])"

definition clean_response :: "string \<Rightarrow> string" where
  \<comment> \<open>the text handed to the JSON parser\<close>
  "clean_response raw =
     (let content = py_strip raw;
          content =
            (if py_in fence_json content
             then py_strip (first_part (py_split (second_part (py_split content fence_json)) fence))
             else if py_in fence content
             then py_strip (first_part (py_split (second_part (py_split content fence)) fence))
             else content)
      in if \<not> startswith content [CHR 0x7B]
         then (case re_search json_object_pattern content of
                 Some (start, n) \<Rightarrow> take n (drop start content)
               | None \<Rightarrow> content)
         else content)"

definition is_rate_limit :: "string \<Rightarrow> bool" where
  "is_rate_limit error_str =
     (py_in ''rate_limit_exceeded'' error_str \<or> py_in ''429'' error_str)"

definition all_keys_exhausted :: json where
  "all_keys_exhausted =
     JObject \<lparr>relevant = False, service_type = Missing,
              reason = Some ''all_keys_exhausted''\<rparr>"

definition analysis_error :: "string \<Rightarrow> json" where
  "analysis_error error_str =
     JObject \<lparr>relevant = False, service_type = Missing,
              reason = Some (''analysis_error: '' @ error_str)\<rparr>"

definition request_analysis ::
  "groq_service \<Rightarrow> string \<Rightarrow> string \<Rightarrow> groq_client \<Rightarrow> (string + json) \<times> groq_client" where
  \<comment> \<open>the \<open>try\<close> block: \<open>Inl\<close> is \<open>str(e)\<close> of the exception it raised\<close>
  "request_analysis svc post_text author_name g =
     (let g1 = g\<lparr>requests := requests g @ [client g]\<rparr>
      in case completion svc (length (requests g)) post_text author_name of
           Failure error_str \<Rightarrow> (Inl error_str, g1)
         | Completion raw \<Rightarrow>
             (json_loads svc (clean_response raw),
              g1\<lparr>daily_request_count := daily_request_count g1 + 1\<rparr>))"

lemma request_analysis_pool:
  "request_analysis svc t a g = (r, g1) \<Longrightarrow>
     api_keys g1 = api_keys g \<and> current_key_index g1 = current_key_index g \<and>
     client g1 = client g \<and> requests g1 = requests g @ [client g]"
  by (auto simp: request_analysis_def Let_def split: reply.splits)

function analyze_nextdoor_post ::
  "groq_service \<Rightarrow> string \<Rightarrow> string \<Rightarrow> groq_client \<Rightarrow> json \<times> groq_client" where
  "analyze_nextdoor_post svc post_text author_name g =
     (case request_analysis svc post_text author_name g of
        (Inr verdict, g1) \<Rightarrow> (verdict, g1)
      | (Inl error_str, g1) \<Rightarrow>
          if is_rate_limit error_str
          then (let (rotated, g2) = rotate_api_key g1
                in if rotated then analyze_nextdoor_post svc post_text author_name g2
                   else (all_keys_exhausted, g2))
          else (analysis_error error_str, g1))"
  by pat_completeness auto
termination
  apply (relation "measure (\<lambda>(svc, t, a, g). length (api_keys g) - current_key_index g)")
   apply simp
  apply (auto simp: rotate_api_key_def dest!: request_analysis_pool [OF sym] split: if_splits)
  done

declare analyze_nextdoor_post.simps [simp del]

fun filter_posts :: "groq_service \<Rightarrow> post list \<Rightarrow> groq_client \<Rightarrow> post list \<times> groq_client" where
  \<comment> \<open>the relevant posts, in the order of the input, each with its analysis attached; a
      verdict that is no object makes \<open>.get\<close> raise, and the post is skipped\<close>
  "filter_posts svc [] g = ([], g)"
| "filter_posts svc (p # ps) g =
     (case analyze_nextdoor_post svc (ptext p) (author p) g of
        (verdict, g1) \<Rightarrow>
          (case filter_posts svc ps g1 of
             (relevant_posts, g2) \<Rightarrow>
               (case verdict of
                  JObject a \<Rightarrow>
                    if relevant a then (p\<lparr>analysis := Some a\<rparr> # relevant_posts, g2)
                    else (relevant_posts, g2)
                | JOther \<Rightarrow> (relevant_posts, g2))))"

section \<open>The verification channel\<close>

definition truthy :: "string option \<Rightarrow> bool" where
  \<comment> \<open>Python's truth value of a string or \<open>None\<close>\<close>
  "truthy x = (case x of None \<Rightarrow> False | Some s \<Rightarrow> s \<noteq> [])"

text \<open>
  The calls that leave the process, in the order they are made: the three requests of the
  gist API and the mails handed to the mail sender (the request for a code with the address
  of the gist, the alert with the search term, the report with its body).
\<close>

datatype mail = CodeRequest string | ZeroPostsAlert string | Report unicode

datatype event =
    GistCreate
  | GistRead string
  | GistDelete string
  | Mail mail

record scanner =
  github_token :: "string option"
  current_gist_id :: "string option"
  events :: "event list"

text \<open>
  The gist service as the scanner meets it. A creation answers 201 with an id and, when the
  payload has one, a page address, or it fails (another status, or the request raises). The
  \<open>k\<close>-th read answers 200 with the file content or fails. A deletion answers with some
  status or raises. Exceptions inside the three gist functions are caught there; the ones
  that reach the handler of the wait come from the notification and from the sleep.

  The \<open>k\<close>-th \<open>time.sleep(30)\<close> of the wait returns, raises an exception of class
  \<open>Exception\<close>, or is broken by a signal: an exception outside that class, a
  \<open>KeyboardInterrupt\<close> or a \<open>SystemExit\<close>, which no \<open>except Exception\<close> handler catches.
\<close>

datatype signal = KeyboardInterrupt | SystemExit

datatype pause = Slept | SleepRaises | SleepInterrupted signal

datatype raised = ByException | BySignal signal

datatype create_reply = Created string "string option" | NotCreated

datatype read_reply = Content200 string | ReadFailed

record gist_service =
  create_reply :: create_reply
  read_reply :: "nat \<Rightarrow> read_reply"
  delete_raises :: bool
  notify_raises :: bool
  sleep :: "nat \<Rightarrow> pause"

definition log :: "event \<Rightarrow> scanner \<Rightarrow> scanner" where
  "log e s = s\<lparr>events := events s @ [e]\<rparr>"

definition create_2fa_gist :: "gist_service \<Rightarrow> scanner \<Rightarrow> string option \<times> scanner" where
  "create_2fa_gist svc s =
     (if \<not> truthy (github_token s) then (None, s)
      else
        let s1 = log GistCreate s
        in case create_reply svc of
             Created gist_id html_url \<Rightarrow> (html_url, s1\<lparr>current_gist_id := Some gist_id\<rparr>)
           | NotCreated \<Rightarrow> (None, s1))"

definition newline :: string where
  "newline = [CHR 0x0A]"

definition code_sentinel :: string where
  "code_sentinel = ''ENTER_2FA_CODE_HERE''"

fun find_code :: "string list \<Rightarrow> string option" where
  \<comment> \<open>the loop over the lines of the file\<close>
  "find_code [] = None"
| "find_code (l # ls) =
     (let line = py_strip l
      in if line \<noteq> [] \<and> str_isdigit line \<and> length line = 6 then Some line
         else if line \<noteq> [] \<and> line \<noteq> code_sentinel \<and> \<not> startswith line ''Instructions:''
         then (let digits = filter py_isdigit line
               in if length digits = 6 then Some digits else find_code ls)
         else find_code ls)"

definition gist_in_use :: "scanner \<Rightarrow> string option" where
  \<comment> \<open>the id of the gist when both the token and the id are set and non-empty: the guard
      \<open>if not self.github_token or not self.current_gist_id: return\<close> negated\<close>
  "gist_in_use s =
     (if truthy (github_token s) \<and> truthy (current_gist_id s) then current_gist_id s else None)"

definition poll_gist_for_code :: "read_reply \<Rightarrow> scanner \<Rightarrow> string option \<times> scanner" where
  "poll_gist_for_code reply s =
     (case gist_in_use s of
        None \<Rightarrow> (None, s)
      | Some gist_id \<Rightarrow>
          let s1 = log (GistRead gist_id) s
          in (case reply of
                Content200 file_content \<Rightarrow> (find_code (py_split file_content newline), s1)
              | ReadFailed \<Rightarrow> (None, s1)))"

definition delete_2fa_gist :: "gist_service \<Rightarrow> scanner \<Rightarrow> scanner" where
  "delete_2fa_gist svc s =
     (case gist_in_use s of
        None \<Rightarrow> s
      | Some gist_id \<Rightarrow>
          let s1 = log (GistDelete gist_id) s
          in if delete_raises svc then s1 else s1\<lparr>current_gist_id := None\<rparr>)"

definition max_attempts :: nat where
  "max_attempts = 6"

function poll_loop ::
  "gist_service \<Rightarrow> nat \<Rightarrow> scanner \<Rightarrow> (raised + string option) \<times> scanner" where
  \<comment> \<open>\<open>while attempt < max_attempts\<close>, with the time-out exit after it: \<open>Inr\<close> is the value
      returned, \<open>Inl\<close> is what the sleep raised\<close>
  "poll_loop svc attempt s =
     (if attempt < max_attempts
      then
        (case poll_gist_for_code (read_reply svc attempt) s of
           (code, s1) \<Rightarrow>
             if truthy code then (Inr code, delete_2fa_gist svc s1)
             else (case sleep svc attempt of
                     Slept \<Rightarrow> poll_loop svc (attempt + 1) s1
                   | SleepRaises \<Rightarrow> (Inl ByException, s1)
                   | SleepInterrupted sg \<Rightarrow> (Inl (BySignal sg), s1)))
      else (Inr None, delete_2fa_gist svc s))"
  by pat_completeness auto
termination
  by (relation "measure (\<lambda>(svc, attempt, s). max_attempts - attempt)") auto

declare poll_loop.simps [simp del]

definition wait_for_2fa_code ::
  "gist_service \<Rightarrow> scanner \<Rightarrow> (signal + string option) \<times> scanner" where
  \<comment> \<open>\<open>Inr\<close> is the value returned; \<open>Inl\<close> is the signal that leaves the function through
      its \<open>except Exception\<close> handler, which does not catch it\<close>
  "wait_for_2fa_code svc s =
     (case create_2fa_gist svc s of
        (gist_url, s1) \<Rightarrow>
          (case gist_url of
             None \<Rightarrow> (Inr None, s1)
           | Some u \<Rightarrow>
               if u = [] then (Inr None, s1)
               else if notify_raises svc then (Inr None, delete_2fa_gist svc s1)
               else
                 (case poll_loop svc 0 (log (Mail (CodeRequest u)) s1) of
                    (Inr code, s2) \<Rightarrow> (Inr code, s2)
                  | (Inl ByException, s2) \<Rightarrow> (Inr None, delete_2fa_gist svc s2)
                  | (Inl (BySignal sg), s2) \<Rightarrow> (Inl sg, s2))))"

definition is_read :: "event \<Rightarrow> bool" where
  \<comment> \<open>the event is a read of a gist\<close>
  "is_read e = (case e of GistRead _ \<Rightarrow> True | _ \<Rightarrow> False)"


section \<open>The report\<close>

text \<open>
  \<open>str_of_nat\<close> is \<open>str\<close> on a natural number. \<open>py_title\<close> is \<open>str.title\<close>: a character
  that follows a cased one is lowered, any other is title-cased, where the cased
  characters up to U+00FF are the letters, the two ordinal indicators and the micro sign.
  The title case of the sharp s is \<open>Ss\<close>, and that of the micro sign and of the y with
  diaeresis lies beyond U+00FF. The report raises \<open>AttributeError\<close> when the service type
  of a post is no string. The clock is read as the name of the day and as a time stamp.
\<close>

datatype error = AttributeError

fun str_of_nat :: "nat \<Rightarrow> string" where
  "str_of_nat n =
     (if n < 10 then [char_of (48 + n)]
      else str_of_nat (n div 10) @ [char_of (48 + n mod 10)])"

declare str_of_nat.simps [simp del]

definition is_cased :: "char \<Rightarrow> bool" where
  "is_cased c =
     (let n = (of_char c :: nat)
      in (65 \<le> n \<and> n \<le> 90) \<or> (97 \<le> n \<and> n \<le> 122) \<or> n = 170 \<or> n = 181 \<or> n = 186 \<or>
         (192 \<le> n \<and> n \<le> 214) \<or> (216 \<le> n \<and> n \<le> 246) \<or> (248 \<le> n \<and> n \<le> 255))"

definition title_char :: "char \<Rightarrow> unicode" where
  "title_char c =
     (let n = (of_char c :: nat)
      in if (97 \<le> n \<and> n \<le> 122) \<or> (224 \<le> n \<and> n \<le> 246) \<or> (248 \<le> n \<and> n \<le> 254)
         then [n - 32]
         else if n = 181 then [0x39C]
         else if n = 223 then [0x53, 0x73]
         else if n = 255 then [0x178]
         else [n])"

fun title_from :: "bool \<Rightarrow> string \<Rightarrow> unicode" where
  \<comment> \<open>the flag is whether the previous character is cased\<close>
  "title_from previous_is_cased [] = []"
| "title_from previous_is_cased (c # cs) =
     (if previous_is_cased then [of_char (lower_char c)] else title_char c)
     @ title_from (is_cased c) cs"

definition py_title :: "string \<Rightarrow> unicode" where
  "py_title s = title_from False s"

definition service_label :: "post \<Rightarrow> error + unicode" where
  \<comment> \<open>\<open>analysis.get('service_type', 'general').replace('_', ' ').title()\<close>, where
      \<open>analysis\<close> is \<open>post.get('analysis', {})\<close>\<close>
  "service_label p =
     (case (case analysis p of None \<Rightarrow> Missing | Some a \<Rightarrow> service_type a) of
        Missing \<Rightarrow> Inr (py_title ''general'')
      | Str t \<Rightarrow> Inr (py_title (map (\<lambda>c. if c = CHR ''_'' then CHR '' '' else c) t))
      | NotStr \<Rightarrow> Inl AttributeError)"

fun report_entries :: "nat \<Rightarrow> post list \<Rightarrow> error + unicode list" where
  \<comment> \<open>\<open>for i, post in enumerate(sorted_posts, i)\<close>: the lines appended for every post, or
      the exception of the first post whose label raises\<close>
  "report_entries i [] = Inr []"
| "report_entries i (p # ps) =
     (case service_label p of
        Inl e \<Rightarrow> Inl e
      | Inr label \<Rightarrow>
          (case report_entries (i + 1) ps of
             Inl e \<Rightarrow> Inl e
           | Inr rest \<Rightarrow>
               Inr ([uni (str_of_nat i) @ uni ''. '' @ uni (author p) @ uni '' - '' @ label,
                     uni ''   '' @ [0x1F4D6] @ uni '' Post: '' @ uni (take 200 (ptext p))
                       @ (if length (ptext p) > 200 then uni ''...'' else [])]
                    @ (if url p \<noteq> []
                       then [uni ''   '' @ [0x1F517] @ uni '' Link: '' @ uni (url p)] else [])
                    @ [uni ''   '' @ replicate 50 (of_char CHR ''-''), []]
                    @ rest)))"

definition report_header :: "string \<Rightarrow> string \<Rightarrow> string \<Rightarrow> unicode list" where
  "report_header term day_of_week generated =
     [[0x1F3E0] @ uni '' NEXTDOOR SEARCH RESULTS'',
      replicate 50 (of_char CHR ''=''),
      uni ''Search: '' @ [0x22] @ uni term @ [0x22],
      uni ''Day: '' @ uni day_of_week,
      uni ''Generated: '' @ uni generated,
      replicate 50 (of_char CHR ''=''),
      [],
      [0x1F3E0] @ uni '' SERVICE OPPORTUNITIES:'',
      []]"

definition report_footer :: "unicode list" where
  "report_footer =
     [[0x1F916] @ uni '' Generated by Bulqit Nextdoor Monitor'',
      replicate 50 (of_char CHR ''='')]"

fun join_lines :: "unicode list \<Rightarrow> unicode" where
  \<comment> \<open>\<open>"\n".join(report_lines)\<close>\<close>
  "join_lines [] = []"
| "join_lines [x] = x"
| "join_lines (x # y # ys) = x @ [0x0A] @ join_lines (y # ys)"

definition generate_report :: "string \<Rightarrow> string \<Rightarrow> post list \<Rightarrow> error + unicode" where
  "generate_report day_of_week generated relevant_posts =
     (case relevant_posts of
        [] \<Rightarrow> Inr (uni ''No relevant Nextdoor posts found.'')
      | first # _ \<Rightarrow>
          (let sorted_posts = sort_key author relevant_posts
           in case report_entries 1 sorted_posts of
                Inl e \<Rightarrow> Inl e
              | Inr entries \<Rightarrow>
                  Inr (join_lines
                         (report_header (search_term first) day_of_week generated
                          @ entries @ report_footer))))"

definition day_name :: "nat \<Rightarrow> string" where
  \<comment> \<open>\<open>strftime('%A')\<close> for the day of the week, 0 for Monday\<close>
  "day_name day =
     (if day = 0 then ''Monday'' else if day = 1 then ''Tuesday''
      else if day = 2 then ''Wednesday'' else if day = 3 then ''Thursday''
      else if day = 4 then ''Friday'' else if day = 5 then ''Saturday'' else ''Sunday'')"


section \<open>Login, search and the run\<close>

text \<open>
  The browser as the run meets it: whether the driver starts; the address shown after the
  news feed is opened; which selectors find an element on the login page; the address
  read after the login click (\<open>None\<close> when reading it raises); whether the run is unattended (\<open>GITHUB_ACTIONS\<close> is
  \<open>true\<close>); the address at each read of the manual wait; the ids of the displayed code
  inputs (\<open>None\<close> when the lookup raises); which input ids are found and take a digit; the
  address after the digits are entered (\<open>None\<close> when reading it raises); which selectors
  find an element when the search starts; whether a driver call of the search raises; the
  day of the week, 0 for Monday; and the time stamp the clock gives for the report.
\<close>

record browser =
  setup_ok :: bool
  feed_url :: string
  login_form :: "string \<Rightarrow> bool"
  url_after_login :: "string option"
  github_actions :: bool
  manual_urls :: "nat \<Rightarrow> string"
  code_inputs :: "string list option"
  field_accepts :: "string \<Rightarrow> bool"
  url_after_code :: "string option"
  search_form :: "string \<Rightarrow> bool"
  search_raises :: bool
  weekday :: nat
  time_stamp :: string

definition email_selectors :: "string list" where
  "email_selectors =
     [''input[type=email]'', ''input[name=email]'', ''#email'', ''input[placeholder*=email]'']"

definition password_selectors :: "string list" where
  "password_selectors =
     [''input[type=password]'', ''input[name=password]'', ''#password'',
      ''input[placeholder*=password]'']"

definition login_selectors :: "string list" where
  "login_selectors =
     [''button[type=submit]'', ''input[type=submit]'', ''button:contains(Log in)'',
      ''button:contains(Sign in)'', ''[data-testid=login-button]'']"

definition search_selectors :: "string list" where
  "search_selectors =
     [''#search-input-field'', ''input[aria-label=Search Nextdoor]'',
      ''input[placeholder*=Search]'', ''input[placeholder*=search]'', ''input[type=search]'',
      ''[data-testid=search-input]'', ''.search-input'', ''input[name=search]'', ''#search'',
      ''input[aria-label*=Search]'']"

text \<open>
  The selectors are written without the double quotes around their attribute values. A
  lookup loop keeps the first selector that finds an element: \<^term>\<open>find\<close> over the list.
\<close>

definition check_for_2fa :: "string option \<Rightarrow> bool" where
  \<comment> \<open>an exception while the address is read is caught and answered \<open>False\<close>\<close>
  "check_for_2fa address =
     (case address of
        None \<Rightarrow> False
      | Some current_url \<Rightarrow> py_in ''login'' (py_lower current_url))"

definition fallback_input_ids :: "string list" where
  "fallback_input_ids = [''_rd_'', ''_re_'', ''_rf_'', ''_rg_'', ''_rh_'', ''_ri_'']"

fun enter_digits :: "(string \<Rightarrow> bool) \<Rightarrow> string list \<Rightarrow> nat \<Rightarrow> string \<Rightarrow> bool" where
  \<comment> \<open>the loop over the digits: digit \<open>i\<close> goes into the field of id \<open>input_ids[i]\<close>; a
      missing id or a field that does not take the digit ends with \<open>False\<close>\<close>
  "enter_digits accepts input_ids i [] = True"
| "enter_digits accepts input_ids i (digit # rest) =
     (if i < length input_ids \<and> accepts (input_ids ! i)
      then enter_digits accepts input_ids (i + 1) rest
      else False)"

definition enter_2fa_code :: "browser \<Rightarrow> string \<Rightarrow> bool" where
  "enter_2fa_code b code =
     (let input_ids = (case code_inputs b of
                         Some ids \<Rightarrow> sort ids
                       | None \<Rightarrow> fallback_input_ids)
      in if length code \<noteq> 6 then False
         else if \<not> enter_digits (field_accepts b) input_ids 0 code then False
         else (case url_after_code b of
                 Some current_url \<Rightarrow> if \<not> py_in ''/login/'' current_url then True else True
               | None \<Rightarrow> True))"

function manual_wait :: "(nat \<Rightarrow> string) \<Rightarrow> nat \<Rightarrow> nat" where
  \<comment> \<open>the 60 reads of the manual wait, one a second, left at the first address without
      \<open>login\<close>; the result is the number of reads made\<close>
  "manual_wait urls i =
     (if i < 60
      then (if \<not> py_in ''login'' (py_lower (urls i)) then i + 1
            else manual_wait urls (i + 1))
      else i)"
  by pat_completeness auto
termination
  by (relation "measure (\<lambda>(urls, i). 60 - i)") auto

declare manual_wait.simps [simp del]

definition authenticate ::
  "browser \<Rightarrow> gist_service \<Rightarrow> scanner \<Rightarrow> (signal + bool) \<times> scanner" where
  \<comment> \<open>the first part of \<open>_login_to_nextdoor\<close>, up to the message with the address after
      login: \<open>Inr False\<close> is one of its \<open>return False\<close>, \<open>Inr True\<close> is going on to the
      search, \<open>Inl\<close> is a signal that left the wait for the code\<close>
  "authenticate b svc s =
     (if py_in ''news_feed'' (feed_url b) \<and> \<not> py_in ''login'' (feed_url b) then (Inr True, s)
      else if find (login_form b) email_selectors = None then (Inr False, s)
      else if find (login_form b) password_selectors = None then (Inr False, s)
      else if find (login_form b) login_selectors = None then (Inr False, s)
      else if check_for_2fa (url_after_login b)
      then
        (if github_actions b \<and> truthy (github_token s)
         then
           (case wait_for_2fa_code svc s of
              (Inl sg, s1) \<Rightarrow> (Inl sg, s1)
            | (Inr two_fa_code, s1) \<Rightarrow>
                (case two_fa_code of
                   None \<Rightarrow> (Inr False, s1)
                 | Some code \<Rightarrow>
                     if code = [] then (Inr False, s1)
                     else if enter_2fa_code b code then (Inr True, s1)
                     else (Inr False, s1)))
         else
           (let reads = manual_wait (manual_urls b) 0
            in if py_in ''login'' (py_lower (manual_urls b reads)) then (Inr False, s)
               else (Inr True, s)))
      else (Inr True, s))"

definition search_schedule :: "nat \<Rightarrow> string" where
  "search_schedule day =
     (if day = 0 then ''pool'' else if day = 1 then ''window'' else if day = 2 then ''bin''
      else if day = 3 then ''lawn'' else if day = 4 then ''gardener''
      else if day = 5 then ''pest control'' else ''pressure washing'')"

definition search_for_term :: "browser \<Rightarrow> string \<Rightarrow> bool \<Rightarrow> bool" where
  \<comment> \<open>no search box is \<open>False\<close>; so is a driver call that raises; the two filters of the
      first search only print whether they were applied\<close>
  "search_for_term b term is_first_search =
     (case find (search_form b) search_selectors of
        None \<Rightarrow> False
      | Some selector \<Rightarrow> if search_raises b then False else True)"

definition collect_and_report ::
  "browser \<Rightarrow> feed \<Rightarrow> groq_service \<Rightarrow> scanner \<Rightarrow> groq_client
     \<Rightarrow> bool \<times> scanner \<times> groq_client" where
  \<comment> \<open>the second part of \<open>_login_to_nextdoor\<close>: search, harvest, removal of duplicates,
      classification and report; an exception of the harvest or of the report ends it with
      \<open>False\<close>\<close>
  "collect_and_report b fd gsvc s g =
     (let term = search_schedule (weekday b);
          harvest =
            (if search_for_term b term True
             then (case fst (scroll_and_collect_posts fd default_max_scrolls) of
                     Raise \<Rightarrow> Raise
                   | Return posts \<Rightarrow>
                       if posts \<noteq> []
                       then Return (map (\<lambda>p. p\<lparr>search_term := term\<rparr>) posts, s)
                       else Return ([], log (Mail (ZeroPostsAlert term)) s))
             else Return ([], s))
      in case harvest of
           Raise \<Rightarrow> (False, s, g)
         | Return (all_posts, s1) \<Rightarrow>
             (let unique_posts = remove_duplicates all_posts {}
              in if unique_posts \<noteq> []
                 then (case filter_posts gsvc unique_posts g of
                         (relevant_posts, g1) \<Rightarrow>
                           if relevant_posts \<noteq> []
                           then (case generate_report (day_name (weekday b)) (time_stamp b)
                                        relevant_posts of
                                   Inl e \<Rightarrow> (False, s1, g1)
                                 | Inr body \<Rightarrow> (True, log (Mail (Report body)) s1, g1))
                           else (True, s1, g1))
                 else (True, s1, g)))"

definition login_to_nextdoor ::
  "browser \<Rightarrow> gist_service \<Rightarrow> feed \<Rightarrow> groq_service \<Rightarrow> scanner \<Rightarrow> groq_client
     \<Rightarrow> (signal + bool) \<times> scanner \<times> groq_client" where
  "login_to_nextdoor b svc fd gsvc s g =
     (case authenticate b svc s of
        (Inl sg, s1) \<Rightarrow> (Inl sg, s1, g)
      | (Inr False, s1) \<Rightarrow> (Inr False, s1, g)
      | (Inr True, s1) \<Rightarrow>
          (case collect_and_report b fd gsvc s1 g of
             (done, s2, g2) \<Rightarrow> (Inr done, s2, g2)))"

definition run_scan ::
  "browser \<Rightarrow> gist_service \<Rightarrow> feed \<Rightarrow> groq_service \<Rightarrow> scanner \<Rightarrow> groq_client
     \<Rightarrow> (signal + bool) \<times> scanner \<times> groq_client" where
  \<comment> \<open>\<open>except KeyboardInterrupt: return True\<close>; another signal leaves the function\<close>
  "run_scan b svc fd gsvc s g =
     (if \<not> setup_ok b then (Inr False, s, g)
      else (case login_to_nextdoor b svc fd gsvc s g of
              (Inl KeyboardInterrupt, s1, g1) \<Rightarrow> (Inr True, s1, g1)
            | (Inl SystemExit, s1, g1) \<Rightarrow> (Inl SystemExit, s1, g1)
            | (Inr False, s1, g1) \<Rightarrow> (Inr False, s1, g1)
            | (Inr True, s1, g1) \<Rightarrow> (Inr True, s1, g1)))"

section \<open>Sample inputs\<close>

definition always_rate_limited :: groq_service where
  \<comment> \<open>a service whose every completion request raises the rate-limit error\<close>
  "always_rate_limited =
     \<lparr>completion = (\<lambda>n t a. Failure ''Error code: 429 - rate_limit_exceeded''),
      json_loads = (\<lambda>s. Inr JOther)\<rparr>"

definition two_keys :: groq_client where
  \<comment> \<open>the client as constructed from two keys\<close>
  "two_keys =
     \<lparr>api_keys = [''key1'', ''key2''], current_key_index = 0, client = ''key1'',
      daily_request_count = 0, requests = []\<rparr>"

definition example_text :: string where
  "example_text =
     ''Jane DoeStudio City'' @ sep_dot @
     ''3 hr agoNeed a reliable pool guy, anyone have recs?2Bob SmithEncino''"

definition pool_container :: container where
  "pool_container =
     \<lparr>full_text = ''Jane DoeStudio City'' @ sep_dot @
                    ''3 hr agoNeed a reliable pool guy, anyone have recs?'',
      href = None\<rparr>"

definition shouted_container :: container where
  "shouted_container =
     \<lparr>full_text = ''Bob SmithEncino'' @ sep_dot @
                    ''5 hr agoNEED A RELIABLE POOL GUY, ANYONE HAVE RECS?'',
      href = None\<rparr>"

definition pool_post :: post where
  "pool_post =
     \<lparr>ptext = ''Need a reliable pool guy, anyone have recs?'', author = ''Jane Doe'',
      url = [], search_term = [], debug_full_text = full_text pool_container,
      scroll_found = None, analysis = None\<rparr>"

definition shouted_post :: post where
  "shouted_post =
     \<lparr>ptext = ''NEED A RELIABLE POOL GUY, ANYONE HAVE RECS?'', author = ''Bob Smith'',
      url = [], search_term = [], debug_full_text = full_text shouted_container,
      scroll_found = None, analysis = None\<rparr>"

definition page_of :: "container list \<Rightarrow> page option" where
  "page_of cs = Some \<lparr>main_content = True, by_testid = cs, by_class = [], by_view_type = [],
                      by_ai = []\<rparr>"

definition shouting_feed :: feed where
  "shouting_feed =
     \<lparr>page_at = (\<lambda>i. if i = 1 then page_of [pool_container]
                      else if i = 2 then page_of [shouted_container, pool_container]
                      else None),
      height_raises = (\<lambda>i. False), scroll_raises = (\<lambda>i. False)\<rparr>"

definition silent_feed :: feed where
  \<comment> \<open>a feed whose pages never hold a post\<close>
  "silent_feed = \<lparr>page_at = (\<lambda>i. None), height_raises = (\<lambda>i. False),
                   scroll_raises = (\<lambda>i. False)\<rparr>"

definition stuck_browser :: browser where
  \<comment> \<open>an unattended run whose login asks for a code and whose address stays on the login
      path after the six digits are entered\<close>
  "stuck_browser =
     \<lparr>setup_ok = True, feed_url = ''https://nextdoor.com/login/?next=/news_feed/'',
      login_form = (\<lambda>selector. True),
      url_after_login = Some ''https://nextdoor.com/login/?next=/news_feed/'',
      github_actions = True, manual_urls = (\<lambda>k. ''https://nextdoor.com/login/''),
      code_inputs = None, field_accepts = (\<lambda>input_id. True),
      url_after_code = Some ''https://nextdoor.com/login/?next=/news_feed/'',
      search_form = (\<lambda>selector. False), search_raises = False, weekday = 0,
      time_stamp = ''2025-01-06 09:00:00''\<rparr>"

definition code_service :: gist_service where
  \<comment> \<open>a gist service whose first read already holds the code\<close>
  "code_service =
     \<lparr>create_reply = Created ''g1'' (Some ''https://gist.github.com/g1''),
      read_reply = (\<lambda>k. Content200 (''123456'' @ newline)),
      delete_raises = False, notify_raises = False, sleep = (\<lambda>k. Slept)\<rparr>"

definition interrupted_service :: gist_service where
  \<comment> \<open>a gist service whose document keeps the sentinel, in a run that is interrupted
      during the first sleep of the wait\<close>
  "interrupted_service =
     \<lparr>create_reply = Created ''g1'' (Some ''https://gist.github.com/g1''),
      read_reply = (\<lambda>k. Content200 (''ENTER_2FA_CODE_HERE'' @ newline)),
      delete_raises = False, notify_raises = False,
      sleep = (\<lambda>k. SleepInterrupted KeyboardInterrupt)\<rparr>"

definition unattended_scanner :: scanner where
  "unattended_scanner = \<lparr>github_token = Some ''token'', current_gist_id = None, events = []\<rparr>"

definition signed_in_browser :: browser where
  \<comment> \<open>a session already admitted to the news feed, on a page without any search box\<close>
  "signed_in_browser =
     \<lparr>setup_ok = True, feed_url = ''https://nextdoor.com/news_feed/'',
      login_form = (\<lambda>selector. False), url_after_login = None,
      github_actions = False, manual_urls = (\<lambda>k. []),
      code_inputs = None, field_accepts = (\<lambda>input_id. False), url_after_code = None,
      search_form = (\<lambda>selector. False), search_raises = False, weekday = 0,
      time_stamp = ''2025-01-06 09:00:00''\<rparr>"




definition null_service :: post where
  \<comment> \<open>a relevant post whose verdict has \<open>null\<close> under \<open>service_type\<close>\<close>
  "null_service =
     \<lparr>ptext = ''Our pool heater needs a service, who can recommend a company?'',
      author = ''Ann Lee'', url = [], search_term = ''pool'', debug_full_text = [],
      scroll_found = Some 1,
      analysis = Some \<lparr>relevant = True, service_type = NotStr, reason = None\<rparr>\<rparr>"

section \<open>Properties of the harvest loop\<close>

lemma scroll_loop_bound:
  "scroll_count \<le> max_scrolls \<Longrightarrow>
     snd (scroll_loop fd max_scrolls scroll_count n ps) \<le> max_scrolls"
proof (induction fd max_scrolls scroll_count n ps rule: scroll_loop.induct)
  case (1 fd max_scrolls scroll_count n ps)
  show ?case
  proof (cases "scroll_count < max_scrolls")
    case False
    with "1.prems" show ?thesis by (simp add: scroll_loop.simps)
  next
    case True
    then have le: "scroll_count + 1 \<le> max_scrolls" by simp
    obtain all' added where a: "add_new_posts (scroll_count + 1)
        (extract_nextdoor_posts (page_at fd (scroll_count + 1))) ps = (all', added)"
      by (cases "add_new_posts (scroll_count + 1)
        (extract_nextdoor_posts (page_at fd (scroll_count + 1))) ps")
    let ?n = "if added = 0 then n + 1 else 0"
    show ?thesis
    proof (cases "height_raises fd (scroll_count + 1) \<or> ?n \<ge> 3 \<or> scroll_raises fd (scroll_count + 1)")
      case stop: True
      then show ?thesis
        using True le a by (auto simp: scroll_loop.simps [of fd max_scrolls scroll_count] Let_def)
    next
      case go: False
      then have e: "scroll_loop fd max_scrolls scroll_count n ps
          = scroll_loop fd max_scrolls (scroll_count + 1) ?n all'"
        using True a by (simp add: scroll_loop.simps [of fd max_scrolls scroll_count] Let_def)
      have "snd (scroll_loop fd max_scrolls (scroll_count + 1) ?n all') \<le> max_scrolls"
        using "1.IH" [OF True refl _ refl a [symmetric] refl refl _ _ le] go by simp
      with e show ?thesis by simp
    qed
  qed
qed


lemma scroll_loop_unfold_empty:
  assumes "extract_nextdoor_posts (page_at fd (scroll_count + 1)) = []"
    and "scroll_count < max_scrolls"
  shows "scroll_loop fd max_scrolls scroll_count n ps =
     (if height_raises fd (scroll_count + 1) then (Raise, scroll_count + 1)
      else if n + 1 \<ge> 3 then (Return ps, scroll_count + 1)
      else if scroll_raises fd (scroll_count + 1) then (Raise, scroll_count + 1)
      else scroll_loop fd max_scrolls (scroll_count + 1) (n + 1) ps)"
  using assms by (simp add: scroll_loop.simps [of fd max_scrolls scroll_count] Let_def)

lemma scroll_loop_stagnant_bound:
  assumes "\<forall>i. extract_nextdoor_posts (page_at fd i) = []"
  shows "n < 3 \<Longrightarrow> snd (scroll_loop fd max_scrolls scroll_count n ps) \<le> scroll_count + (3 - n)"
proof (induction "3 - n" arbitrary: n scroll_count)
  case 0
  then show ?case by simp
next
  case (Suc k)
  show ?case
  proof (cases "scroll_count < max_scrolls")
    case False
    then show ?thesis using Suc.prems by (simp add: scroll_loop.simps [of fd max_scrolls scroll_count])
  next
    case True
    note u = scroll_loop_unfold_empty [OF assms [rule_format] True, of n ps]
    show ?thesis
    proof (cases "n + 1 \<ge> 3")
      case True
      then show ?thesis using u Suc.prems by auto
    next
      case False
      then have "k = 3 - (n + 1)" "n + 1 < 3" using Suc.hyps(2) by simp_all
      from Suc.hyps(1) [OF this, of "scroll_count + 1"]
      show ?thesis using u False by auto
    qed
  qed
qed

lemma scroll_loop_stagnant_exact:
  assumes "\<forall>i. extract_nextdoor_posts (page_at fd i) = [] \<and> \<not> height_raises fd i \<and>
             \<not> scroll_raises fd i"
  shows "n < 3 \<Longrightarrow> scroll_count + (3 - n) \<le> max_scrolls \<Longrightarrow>
     scroll_loop fd max_scrolls scroll_count n ps = (Return ps, scroll_count + (3 - n))"
proof (induction "3 - n" arbitrary: n scroll_count)
  case 0
  then show ?case by simp
next
  case (Suc k)
  then have lt: "scroll_count < max_scrolls" by simp
  have e: "extract_nextdoor_posts (page_at fd (scroll_count + 1)) = []" using assms by simp
  note u = scroll_loop_unfold_empty [OF e lt, of n ps]
  show ?case
  proof (cases "n + 1 \<ge> 3")
    case True
    then have "n = 2" using Suc.prems by simp
    then show ?thesis using u assms by simp
  next
    case False
    then have "k = 3 - (n + 1)" "n + 1 < 3" "scroll_count + 1 + (3 - (n + 1)) \<le> max_scrolls"
      using Suc.hyps(2) Suc.prems by simp_all
    from Suc.hyps(1) [OF this]
    show ?thesis using u False assms by simp
  qed
qed

text \<open>
  Claim C4. The loop is a total function, and it begins at most \<open>max_scrolls\<close> iterations,
  20 by default, whatever the feed shows. On a feed whose pages never yield a post it
  begins at most three, for any budget; when moreover no script raises and the budget is
  at least three, it returns the empty list after exactly three iterations, the moment
  the stagnation counter reaches 3.
\<close>

theorem harvest_terminates:
  "snd (scroll_and_collect_posts fd max_scrolls) \<le> max_scrolls
   \<and> default_max_scrolls = 20
   \<and> ((\<forall>i. extract_nextdoor_posts (page_at fd i) = []) \<longrightarrow>
         snd (scroll_and_collect_posts fd max_scrolls) \<le> 3)
   \<and> ((\<forall>i. extract_nextdoor_posts (page_at fd i) = [] \<and> \<not> height_raises fd i \<and>
              \<not> scroll_raises fd i) \<and> 3 \<le> max_scrolls \<longrightarrow>
         scroll_and_collect_posts fd max_scrolls = (Return [], 3))"
  using scroll_loop_bound [of 0 max_scrolls fd 0 "[]"]
    scroll_loop_stagnant_bound [of fd 0 max_scrolls 0 "[]"]
    scroll_loop_stagnant_exact [of fd 0 0 max_scrolls "[]"]
  by (simp add: scroll_and_collect_posts_def default_max_scrolls_def)


theorem harvest_terminates_witness:
  "(\<forall>i. extract_nextdoor_posts (page_at silent_feed i) = [] \<and> \<not> height_raises silent_feed i \<and>
         \<not> scroll_raises silent_feed i)
   \<and> scroll_and_collect_posts silent_feed default_max_scrolls = (Return [], 3)"
proof -
  have h: "\<forall>i. extract_nextdoor_posts (page_at silent_feed i) = [] \<and>
             \<not> height_raises silent_feed i \<and> \<not> scroll_raises silent_feed i"
    by (simp add: silent_feed_def extract_nextdoor_posts_def)
  with harvest_terminates [of silent_feed default_max_scrolls] show ?thesis
    by (simp add: default_max_scrolls_def)
qed

lemma add_new_posts_distinct:
  "distinct (map (\<lambda>p. take 50 (ptext p)) all_posts) \<Longrightarrow>
     distinct (map (\<lambda>p. take 50 (ptext p)) (fst (add_new_posts scroll_count ps all_posts)))"
proof (induction ps arbitrary: all_posts)
  case Nil
  then show ?case by simp
next
  case (Cons p ps)
  show ?case
  proof (cases "list_ex (\<lambda>existing. take 50 (ptext existing) = take 50 (ptext p)) all_posts")
    case True
    then show ?thesis using Cons by simp
  next
    case False
    then have "take 50 (ptext p) \<notin> set (map (\<lambda>p. take 50 (ptext p)) all_posts)"
      by (auto simp: list_ex_iff)
    then have "distinct (map (\<lambda>p. take 50 (ptext p))
                 (all_posts @ [p\<lparr>scroll_found := Some scroll_count\<rparr>]))"
      using Cons.prems by simp
    from Cons.IH [OF this] show ?thesis using False by (auto split: prod.splits)
  qed
qed

lemma scroll_loop_distinct:
  "distinct (map (\<lambda>p. take 50 (ptext p)) all_posts) \<Longrightarrow>
     fst (scroll_loop fd max_scrolls scroll_count n all_posts) = Return ps \<Longrightarrow>
     distinct (map (\<lambda>p. take 50 (ptext p)) ps)"
proof (induction fd max_scrolls scroll_count n all_posts rule: scroll_loop.induct)
  case (1 fd max_scrolls scroll_count n all_posts)
  show ?case
  proof (cases "scroll_count < max_scrolls")
    case False
    with "1.prems" show ?thesis by (simp add: scroll_loop.simps)
  next
    case True
    obtain all' added where a: "add_new_posts (scroll_count + 1)
        (extract_nextdoor_posts (page_at fd (scroll_count + 1))) all_posts = (all', added)"
      by (cases "add_new_posts (scroll_count + 1)
        (extract_nextdoor_posts (page_at fd (scroll_count + 1))) all_posts")
    have d: "distinct (map (\<lambda>p. take 50 (ptext p)) all')"
      using add_new_posts_distinct [OF "1.prems"(1), of "scroll_count + 1"
          "extract_nextdoor_posts (page_at fd (scroll_count + 1))"] a by simp
    let ?n = "if added = 0 then n + 1 else 0"
    show ?thesis
    proof (cases "height_raises fd (scroll_count + 1) \<or> ?n \<ge> 3 \<or> scroll_raises fd (scroll_count + 1)")
      case stop: True
      then show ?thesis
        using True a d "1.prems"(2)
        by (auto simp: scroll_loop.simps [of fd max_scrolls scroll_count] Let_def split: if_splits)
    next
      case go: False
      then have e: "scroll_loop fd max_scrolls scroll_count n all_posts
          = scroll_loop fd max_scrolls (scroll_count + 1) ?n all'"
        using True a by (simp add: scroll_loop.simps [of fd max_scrolls scroll_count] Let_def)
      show ?thesis
        using "1.IH" [OF True refl _ refl a [symmetric] refl refl _ _ d] go e "1.prems"(2)
        by simp
    qed
  qed
qed

lemma harvest_distinct_exact_prefix:
  "fst (scroll_and_collect_posts fd max_scrolls) = Return ps \<Longrightarrow>
     distinct (map (\<lambda>p. take 50 (ptext p)) ps)"
  using scroll_loop_distinct [of "[]" fd max_scrolls 0 0 ps]
  by (simp add: scroll_and_collect_posts_def)

lemma extract_pool_container: "extract_container pool_container = Some pool_post"
  by code_simp

lemma extract_shouted_container: "extract_container shouted_container = Some shouted_post"
  by code_simp

lemma same_text_key: "text_key pool_post = text_key shouted_post"
  by code_simp

lemma same_lowered_prefix:
  "py_lower (take 50 (ptext pool_post)) = py_lower (take 50 (ptext shouted_post))"
  by code_simp

lemma different_prefix: "take 50 (ptext shouted_post) \<noteq> take 50 (ptext pool_post)"
  by (simp add: pool_post_def shouted_post_def)

lemma shouting_feed_pages:
  "extract_nextdoor_posts (page_at shouting_feed i)
     = (if i = 1 then [pool_post] else if i = 2 then [shouted_post] else [])"
  using same_text_key
  by (simp add: shouting_feed_def page_of_def extract_nextdoor_posts_def post_containers_def
      extract_pool_container extract_shouted_container)

text \<open>
  Claim C1 on the code. The loop compares the first 50 characters as they are, without
  lowering them, so the posts it returns have pairwise different prefixes
  (\<open>harvest_distinct_exact_prefix\<close>) while two of them can share the lowercased one. On
  the feed \<open>shouting_feed\<close> the first page shows a post and the second page shows, above
  it, a post with the same text in capitals: the extractor, whose key is lowercased,
  keeps only the new one of the two on the second page, and the loop then appends it. The
  result holds both posts, whose lowercased prefixes are equal.
\<close>

theorem harvest_keeps_case_variants:
  "fst (scroll_and_collect_posts shouting_feed default_max_scrolls)
     = Return [pool_post\<lparr>scroll_found := Some 1\<rparr>, shouted_post\<lparr>scroll_found := Some 2\<rparr>]
   \<and> ptext pool_post = ''Need a reliable pool guy, anyone have recs?''
   \<and> ptext shouted_post = ''NEED A RELIABLE POOL GUY, ANYONE HAVE RECS?''
   \<and> py_lower (take 50 (ptext pool_post)) = py_lower (take 50 (ptext shouted_post))"
proof -
  have r: "height_raises shouting_feed i = False" "scroll_raises shouting_feed i = False" for i
    by (simp_all add: shouting_feed_def)
  have "scroll_loop shouting_feed 20 0 0 []
      = (Return [pool_post\<lparr>scroll_found := Some 1\<rparr>, shouted_post\<lparr>scroll_found := Some 2\<rparr>], 5)"
    using different_prefix
    by (simp add: scroll_loop.simps shouting_feed_pages r Let_def)
  then show ?thesis
    using same_lowered_prefix
    by (simp add: scroll_and_collect_posts_def default_max_scrolls_def pool_post_def shouted_post_def)
qed

section \<open>Properties of the credential pool\<close>

lemma rotate_api_key_cases:
  "rotate_api_key g =
     (if current_key_index g + 1 < length (api_keys g)
      then (True, g\<lparr>current_key_index := current_key_index g + 1,
                     client := api_keys g ! (current_key_index g + 1),
                     daily_request_count := 0\<rparr>)
      else (False, g))"
  by (auto simp: rotate_api_key_def)

lemma rotate_api_key_cursor:
  "rotate_api_key g = (b, g') \<Longrightarrow>
     api_keys g' = api_keys g \<and> current_key_index g \<le> current_key_index g' \<and>
     (current_key_index g < length (api_keys g) \<longrightarrow>
        current_key_index g' < length (api_keys g))"
  by (auto simp: rotate_api_key_cases split: if_splits)

lemma analyze_nextdoor_post_cursor:
  "analyze_nextdoor_post svc t a g = (v, g') \<Longrightarrow>
     api_keys g' = api_keys g \<and> current_key_index g \<le> current_key_index g' \<and>
     (current_key_index g < length (api_keys g) \<longrightarrow>
        current_key_index g' < length (api_keys g))"
proof (induction svc t a g arbitrary: v g' rule: analyze_nextdoor_post.induct)
  case (1 svc t a g)
  obtain r g1 where req: "request_analysis svc t a g = (r, g1)"
    by (cases "request_analysis svc t a g")
  note pool = request_analysis_pool [OF req]
  show ?case
  proof (cases r)
    case (Inr verdict)
    with req "1.prems" have "g' = g1" by (simp add: analyze_nextdoor_post.simps)
    with pool show ?thesis by simp
  next
    case (Inl error_str)
    show ?thesis
    proof (cases "is_rate_limit error_str")
      case False
      with Inl req "1.prems" have "g' = g1" by (simp add: analyze_nextdoor_post.simps)
      with pool show ?thesis by simp
    next
      case True
      obtain rotated g2 where rot: "rotate_api_key g1 = (rotated, g2)"
        by (cases "rotate_api_key g1")
      note rc = rotate_api_key_cursor [OF rot]
      show ?thesis
      proof (cases rotated)
        case False
        with True Inl req rot "1.prems" have "g' = g2"
          by (simp add: analyze_nextdoor_post.simps)
        with pool rc show ?thesis by simp
      next
        case rt: True
        with True Inl req rot "1.prems"
        have "analyze_nextdoor_post svc t a g2 = (v, g')"
          by (simp add: analyze_nextdoor_post.simps)
        from "1.IH" [OF req [symmetric, unfolded Inl] _ True rot [symmetric] refl rt this]
        show ?thesis using pool rc by auto
      qed
    qed
  qed
qed


lemma filter_posts_cursor:
  "filter_posts svc ps g = (rel, g') \<Longrightarrow>
     api_keys g' = api_keys g \<and> current_key_index g \<le> current_key_index g' \<and>
     (current_key_index g < length (api_keys g) \<longrightarrow>
        current_key_index g' < length (api_keys g))"
proof (induction ps arbitrary: g rel g')
  case Nil
  then show ?case by simp
next
  case (Cons p ps)
  obtain v g1 where a: "analyze_nextdoor_post svc (ptext p) (author p) g = (v, g1)"
    by (cases "analyze_nextdoor_post svc (ptext p) (author p) g")
  obtain rest g2 where f: "filter_posts svc ps g1 = (rest, g2)"
    by (cases "filter_posts svc ps g1")
  from Cons.prems a f have "g' = g2"
    by (auto split: json.splits if_splits)
  with analyze_nextdoor_post_cursor [OF a] Cons.IH [OF f] show ?case by auto
qed

text \<open>
  Claim C9. The cursor never decreases and never wraps. A rotation succeeds exactly when
  the cursor is strictly below the last index, and then adds one; otherwise it leaves the
  cursor where it is. Classifying a post, and filtering a whole list of posts, end with
  a cursor at least as large as at the start, and a cursor inside the pool stays inside.
\<close>

theorem cursor_monotone:
  "fst (rotate_api_key g) = (current_key_index g + 1 < length (api_keys g))
   \<and> current_key_index (snd (rotate_api_key g))
       = (if current_key_index g + 1 < length (api_keys g)
          then current_key_index g + 1 else current_key_index g)
   \<and> current_key_index g \<le> current_key_index (snd (analyze_nextdoor_post svc t a g))
   \<and> current_key_index g \<le> current_key_index (snd (filter_posts svc ps g))
   \<and> (current_key_index g < length (api_keys g) \<longrightarrow>
        current_key_index (snd (filter_posts svc ps g)) < length (api_keys g))"
proof -
  have r: "fst (rotate_api_key g) = (current_key_index g + 1 < length (api_keys g))"
    "current_key_index (snd (rotate_api_key g))
       = (if current_key_index g + 1 < length (api_keys g)
          then current_key_index g + 1 else current_key_index g)"
    by (simp_all add: rotate_api_key_cases)
  have a: "current_key_index g \<le> current_key_index (snd (analyze_nextdoor_post svc t a g))"
    using analyze_nextdoor_post_cursor [of svc t a g] by (metis prod.collapse)
  have f: "current_key_index g \<le> current_key_index (snd (filter_posts svc ps g))"
    "current_key_index g < length (api_keys g) \<longrightarrow>
        current_key_index (snd (filter_posts svc ps g)) < length (api_keys g)"
    using filter_posts_cursor [of svc ps g] by (metis prod.collapse)+
  from r a f show ?thesis by blast
qed

theorem cursor_monotone_witness:
  "current_key_index two_keys < length (api_keys two_keys)
   \<and> fst (rotate_api_key two_keys)
   \<and> current_key_index (snd (rotate_api_key two_keys)) = 1
   \<and> current_key_index (snd (filter_posts always_rate_limited [] two_keys))
       < length (api_keys two_keys)"
  using cursor_monotone [of two_keys always_rate_limited "[]" "[]" "[]"]
  by (simp add: two_keys_def)

lemma exhaust_from_cursor:
  assumes "\<forall>n. \<exists>e. completion svc n t a = Failure e \<and> is_rate_limit e"
    and "current_key_index g < length (api_keys g)"
    and "client g = api_keys g ! current_key_index g"
  shows "analyze_nextdoor_post svc t a g
           = (all_keys_exhausted,
              g\<lparr>current_key_index := length (api_keys g) - 1,
                 client := api_keys g ! (length (api_keys g) - 1),
                 daily_request_count :=
                   (if current_key_index g + 1 < length (api_keys g) then 0
                    else daily_request_count g),
                 requests := requests g @ drop (current_key_index g) (api_keys g)\<rparr>)"
  using assms
proof (induction svc t a g rule: analyze_nextdoor_post.induct)
  case (1 svc t a g)
  let ?c = "current_key_index g" and ?N = "length (api_keys g)"
  let ?g1 = "g\<lparr>requests := requests g @ [client g]\<rparr>"
  from "1.prems"(1) obtain e where e: "completion svc (length (requests g)) t a = Failure e"
    "is_rate_limit e" by blast
  then have req: "request_analysis svc t a g = (Inl e, ?g1)"
    by (simp add: request_analysis_def Let_def)
  show ?case
  proof (cases "?c + 1 < ?N")
    case False
    with "1.prems" have last: "?c = ?N - 1" by simp
    have rot: "rotate_api_key ?g1 = (False, ?g1)" using False by (simp add: rotate_api_key_cases)
    have "drop ?c (api_keys g) = [api_keys g ! ?c]"
      using "1.prems"(2) last by (metis Cons_nth_drop_Suc Suc_diff_1 drop_all le_refl length_greater_0_conv list.size(3) not_less_zero)
    then show ?thesis
      using req e rot False last "1.prems"(3)
      by (simp add: analyze_nextdoor_post.simps [of svc t a g])
  next
    case True
    let ?g2 = "?g1\<lparr>current_key_index := ?c + 1, client := api_keys g ! (?c + 1),
                      daily_request_count := 0\<rparr>"
    have rot: "rotate_api_key ?g1 = (True, ?g2)" using True by (simp add: rotate_api_key_cases)
    have ih: "analyze_nextdoor_post svc t a ?g2
           = (all_keys_exhausted,
              ?g2\<lparr>current_key_index := length (api_keys ?g2) - 1,
                 client := api_keys ?g2 ! (length (api_keys ?g2) - 1),
                 daily_request_count :=
                   (if current_key_index ?g2 + 1 < length (api_keys ?g2) then 0
                    else daily_request_count ?g2),
                 requests := requests ?g2 @ drop (current_key_index ?g2) (api_keys ?g2)\<rparr>)"
      using "1.IH" [OF req [symmetric] refl e(2) rot [symmetric] refl _ "1.prems"(1)] True
      by simp
    have d: "drop ?c (api_keys g) = api_keys g ! ?c # drop (?c + 1) (api_keys g)"
      using "1.prems"(2) by (simp add: Cons_nth_drop_Suc)
    have "analyze_nextdoor_post svc t a g = analyze_nextdoor_post svc t a ?g2"
      using req e rot by (simp add: analyze_nextdoor_post.simps [of svc t a g])
    then show ?thesis
      using ih d "1.prems"(3) True by simp
  qed
qed

lemma new_client_two_keys: "new_client [''key1'', ''key2''] = Some two_keys"
  by (simp add: new_client_def two_keys_def)

lemma rate_limit_message: "is_rate_limit ''Error code: 429 - rate_limit_exceeded''"
  by code_simp

lemma always_rate_limited_replies:
  "\<forall>n. \<exists>e. completion always_rate_limited n t a = Failure e \<and> is_rate_limit e"
  using rate_limit_message by (simp add: always_rate_limited_def)

text \<open>
  Claim C2, as the code has it. With every request rate-limited, a classification that
  starts with the cursor at \<open>c\<close> in a pool of \<open>N\<close> keys sends exactly \<open>N - c\<close> requests,
  one with each key from the \<open>c\<close>-th on, in order, leaves the cursor on the last key and
  returns the exhausted verdict, whose \<open>relevant\<close> is false. That is \<open>N\<close> requests for
  the pool as constructed (\<open>c = 0\<close>), and fewer once the cursor has advanced, since the
  cursor is never reset.
\<close>

theorem classify_exhausts_remaining_keys:
  assumes "\<forall>n. \<exists>e. completion svc n t a = Failure e \<and> is_rate_limit e"
    and "current_key_index g < length (api_keys g)"
    and "client g = api_keys g ! current_key_index g"
  shows "fst (analyze_nextdoor_post svc t a g)
           = JObject \<lparr>relevant = False, service_type = Missing,
                      reason = Some ''all_keys_exhausted''\<rparr>
       \<and> requests (snd (analyze_nextdoor_post svc t a g))
           = requests g @ drop (current_key_index g) (api_keys g)
       \<and> length (requests (snd (analyze_nextdoor_post svc t a g)))
           = length (requests g) + (length (api_keys g) - current_key_index g)
       \<and> current_key_index (snd (analyze_nextdoor_post svc t a g)) = length (api_keys g) - 1"
  using exhaust_from_cursor [OF assms] by (simp add: all_keys_exhausted_def)

theorem classify_exhausts_remaining_keys_witness:
  "current_key_index two_keys < length (api_keys two_keys)
   \<and> client two_keys = api_keys two_keys ! current_key_index two_keys
   \<and> requests (snd (analyze_nextdoor_post always_rate_limited ''text'' ''author'' two_keys))
       = [''key1'', ''key2'']
   \<and> current_key_index
         (snd (analyze_nextdoor_post always_rate_limited ''text'' ''author'' two_keys)) = 1"
proof -
  have c: "current_key_index two_keys < length (api_keys two_keys)"
    and k: "client two_keys = api_keys two_keys ! current_key_index two_keys"
    by (simp_all add: two_keys_def)
  from classify_exhausts_remaining_keys [OF always_rate_limited_replies c k] c k
  show ?thesis by (simp add: two_keys_def)
qed

text \<open>
  The claim as stated fails for the second post of a run: after the first classification
  has exhausted a pool of two keys, the next one sends a single request, not two.
\<close>

theorem classify_second_post_counterexample:
  "length (api_keys (snd (analyze_nextdoor_post always_rate_limited ''first'' ''author''
                            two_keys))) = 2
   \<and> length (requests (snd (analyze_nextdoor_post always_rate_limited ''second'' ''author''
                 (snd (analyze_nextdoor_post always_rate_limited ''first'' ''author''
                         two_keys)))))
       = length (requests (snd (analyze_nextdoor_post always_rate_limited ''first'' ''author''
                                  two_keys))) + 1"
proof -
  have c: "current_key_index two_keys < length (api_keys two_keys)"
    and k: "client two_keys = api_keys two_keys ! current_key_index two_keys"
    by (simp_all add: two_keys_def)
  let ?g1 = "snd (analyze_nextdoor_post always_rate_limited ''first'' ''author'' two_keys)"
  have g1: "?g1 = two_keys\<lparr>current_key_index := 1, client := ''key2'',
                             daily_request_count := 0, requests := [''key1'', ''key2'']\<rparr>"
    using exhaust_from_cursor [OF always_rate_limited_replies c k, of "''first''" "''author''"]
    by (simp add: two_keys_def)
  have c1: "current_key_index ?g1 < length (api_keys ?g1)"
    and k1: "client ?g1 = api_keys ?g1 ! current_key_index ?g1"
    unfolding g1 by (simp_all add: two_keys_def)
  from exhaust_from_cursor [OF always_rate_limited_replies c1 k1, of "''second''" "''author''"]
  have "requests (snd (analyze_nextdoor_post always_rate_limited ''second'' ''author'' ?g1))
          = requests ?g1 @ drop (current_key_index ?g1) (api_keys ?g1)"
    by simp
  then show ?thesis unfolding g1 by (simp add: two_keys_def)
qed

section \<open>Properties of the verification channel\<close>

lemma digits_not_sentinel: "str_isdigit x \<Longrightarrow> x \<noteq> code_sentinel"
proof
  assume "str_isdigit x" "x = code_sentinel"
  then have "str_isdigit code_sentinel" by simp
  moreover have "\<not> str_isdigit code_sentinel" by code_simp
  ultimately show False by simp
qed















lemma gist_in_use_iff:
  "gist_in_use s = Some gid \<longleftrightarrow> truthy (github_token s) \<and> current_gist_id s = Some gid \<and> gid \<noteq> []"
  by (auto simp: gist_in_use_def truthy_def split: option.splits)

lemma poll_gist_for_code_state:
  "gist_in_use s = Some gid \<Longrightarrow>
     snd (poll_gist_for_code reply s) = log (GistRead gid) s"
  by (cases reply) (simp_all add: poll_gist_for_code_def Let_def)

lemma gist_in_use_log [simp]: "gist_in_use (log e s) = gist_in_use s"
  by (simp add: gist_in_use_def log_def)

lemma events_log [simp]: "events (log e s) = events s @ [e]"
  by (simp add: log_def)

lemma delete_2fa_gist_events:
  "gist_in_use s = Some gid \<Longrightarrow> events (delete_2fa_gist svc s) = events s @ [GistDelete gid]"
  by (simp add: delete_2fa_gist_def Let_def)

lemma poll_loop_events:
  "gist_in_use s = Some gid \<Longrightarrow>
     (case poll_loop svc attempt s of
        (Inr code, s') \<Rightarrow>
          \<exists>mid. events s' = events s @ mid @ [GistDelete gid] \<and> list_all is_read mid
      | (Inl r, s') \<Rightarrow>
          (\<exists>mid. events s' = events s @ mid \<and> list_all is_read mid) \<and>
          gist_in_use s' = Some gid)"
proof (induction svc attempt s rule: poll_loop.induct)
  case (1 svc attempt s)
  show ?case
  proof (cases "attempt < max_attempts")
    case False
    then have "poll_loop svc attempt s = (Inr None, delete_2fa_gist svc s)"
      by (simp add: poll_loop.simps)
    then show ?thesis using delete_2fa_gist_events [OF "1.prems"] by simp
  next
    case True
    obtain code s1 where r: "poll_gist_for_code (read_reply svc attempt) s = (code, s1)"
      by (cases "poll_gist_for_code (read_reply svc attempt) s")
    then have s1: "s1 = log (GistRead gid) s"
      using poll_gist_for_code_state [OF "1.prems", of "read_reply svc attempt"] by simp
    then have g1: "gist_in_use s1 = Some gid" using "1.prems" by simp
    have rd: "is_read (GistRead gid)" by (simp add: is_read_def)
    consider (found) "truthy code"
      | (raised) r where "\<not> truthy code" "sleep svc attempt \<noteq> Slept"
          "poll_loop svc attempt s = (Inl r, s1)"
      | (again) "\<not> truthy code" "sleep svc attempt = Slept"
      using True r by (cases "sleep svc attempt") (auto simp: poll_loop.simps [of svc attempt s])
    then show ?thesis
    proof cases
      case found
      then have "poll_loop svc attempt s = (Inr code, delete_2fa_gist svc s1)"
        using True r by (simp add: poll_loop.simps)
      moreover have "events (delete_2fa_gist svc s1) = events s @ [GistRead gid] @ [GistDelete gid]"
        using delete_2fa_gist_events [OF g1] s1 by simp
      ultimately show ?thesis using rd by (auto intro: exI [of _ "[GistRead gid]"])
    next
      case raised
      then show ?thesis using g1 s1 rd by (auto intro: exI [of _ "[GistRead gid]"])
    next
      case again
      then have e: "poll_loop svc attempt s = poll_loop svc (attempt + 1) s1"
        using True r by (simp add: poll_loop.simps)
      have ih: "case poll_loop svc (attempt + 1) s1 of
          (Inr code, s') \<Rightarrow>
            \<exists>mid. events s' = events s1 @ mid @ [GistDelete gid] \<and> list_all is_read mid
        | (Inl r, s') \<Rightarrow>
            (\<exists>mid. events s' = events s1 @ mid \<and> list_all is_read mid) \<and>
            gist_in_use s' = Some gid"
        using "1.IH" [OF True r [symmetric] again g1] .
      obtain res s' where p: "poll_loop svc (attempt + 1) s1 = (res, s')"
        by (cases "poll_loop svc (attempt + 1) s1")
      show ?thesis
      proof (cases res)
        case (Inr c)
        with ih p obtain mid where "events s' = events s1 @ mid @ [GistDelete gid]" "list_all is_read mid"
          by auto
        then have "events s' = events s @ (GistRead gid # mid) @ [GistDelete gid]" "list_all is_read (GistRead gid # mid)"
          using s1 rd by simp_all
        then show ?thesis using e p Inr by (simp del: append_Cons)
      next
        case (Inl x)
        with ih p obtain mid where "events s' = events s1 @ mid" "list_all is_read mid" "gist_in_use s' = Some gid"
          by auto
        then have "events s' = events s @ (GistRead gid # mid)" "list_all is_read (GistRead gid # mid)"
          using s1 rd by simp_all
        then show ?thesis using e p Inl \<open>gist_in_use s' = Some gid\<close> by (simp del: append_Cons)
      qed
    qed
  qed
qed

lemma poll_loop_signal:
  "poll_loop svc attempt s = (Inl (BySignal sg), s') \<Longrightarrow>
     \<exists>k. sleep svc k = SleepInterrupted sg"
proof (induction svc attempt s rule: poll_loop.induct)
  case (1 svc attempt s)
  obtain code s1 where r: "poll_gist_for_code (read_reply svc attempt) s = (code, s1)"
    by (cases "poll_gist_for_code (read_reply svc attempt) s")
  show ?case
  proof (cases "sleep svc attempt")
    case Slept
    then show ?thesis
      using "1.prems" "1.IH" [OF _ r [symmetric]] r
      by (auto simp: poll_loop.simps [of svc attempt s] split: if_splits)
  next
    case SleepRaises
    then show ?thesis
      using "1.prems" r
      by (auto simp: poll_loop.simps [of svc attempt s] split: if_splits)
  next
    case (SleepInterrupted x)
    then show ?thesis
      using "1.prems" r
      by (auto simp: poll_loop.simps [of svc attempt s] split: if_splits)
  qed
qed

lemma wait_for_2fa_code_deletes_unless_signalled:
  assumes "truthy (github_token s)"
    and "create_reply svc = Created gid (Some u)" and "gid \<noteq> []" and "u \<noteq> []"
    and "\<forall>k sg. sleep svc k \<noteq> SleepInterrupted sg"
  shows "\<exists>code mid. fst (wait_for_2fa_code svc s) = Inr code
               \<and> events (snd (wait_for_2fa_code svc s))
                  = events s @ [GistCreate] @ mid @ [GistDelete gid]
               \<and> GistDelete gid \<notin> set mid"
proof -
  let ?s1 = "(log GistCreate s)\<lparr>current_gist_id := Some gid\<rparr>"
  have c: "create_2fa_gist svc s = (Some u, ?s1)"
    using assms by (simp add: create_2fa_gist_def Let_def)
  have g1: "gist_in_use ?s1 = Some gid"
    using assms by (simp add: gist_in_use_iff log_def)
  have e1: "events ?s1 = events s @ [GistCreate]" by simp
  have nd: "list_all is_read mid \<Longrightarrow> GistDelete gid \<notin> set mid" for mid
    by (auto simp: list_all_iff is_read_def)
  show ?thesis
  proof (cases "notify_raises svc")
    case True
    then have w: "wait_for_2fa_code svc s = (Inr None, delete_2fa_gist svc ?s1)"
      using c assms by (simp add: wait_for_2fa_code_def)
    then have "events (snd (wait_for_2fa_code svc s)) = events s @ [GistCreate] @ [] @ [GistDelete gid]"
      using delete_2fa_gist_events [OF g1] e1 by simp
    with w show ?thesis by (intro exI [of _ None] exI [of _ "[]"]) simp
  next
    case False
    let ?s2 = "log (Mail (CodeRequest u)) ?s1"
    have g2: "gist_in_use ?s2 = Some gid" using g1 by simp
    have e2: "events ?s2 = events s @ [GistCreate] @ [Mail (CodeRequest u)]" by simp
    obtain res s' where p: "poll_loop svc 0 ?s2 = (res, s')"
      by (cases "poll_loop svc 0 ?s2")
    have w: "wait_for_2fa_code svc s =
        (case res of
           Inr code \<Rightarrow> (Inr code, s')
         | Inl ByException \<Rightarrow> (Inr None, delete_2fa_gist svc s')
         | Inl (BySignal sg) \<Rightarrow> (Inl sg, s'))"
      using c assms(4) False p by (simp add: wait_for_2fa_code_def split: sum.splits raised.splits)
    show ?thesis
    proof (cases res)
      case (Inr code)
      with poll_loop_events [OF g2, of svc 0] p
      obtain mid where m: "events s' = events ?s2 @ mid @ [GistDelete gid]" "list_all is_read mid"
        by auto
      have "events (snd (wait_for_2fa_code svc s))
              = events s @ [GistCreate] @ (Mail (CodeRequest u) # mid) @ [GistDelete gid]"
        using w Inr m e2 by simp
      moreover have "GistDelete gid \<notin> set (Mail (CodeRequest u) # mid)"
        using nd [OF m(2)] by simp
      moreover have "fst (wait_for_2fa_code svc s) = Inr code" using w Inr by simp
      ultimately show ?thesis by blast
    next
      case (Inl r)
      have ex: "r = ByException"
      proof (cases r)
        case ByException
        then show ?thesis .
      next
        case (BySignal sg)
        with poll_loop_signal [of svc 0 ?s2 sg s'] p Inl assms(5) show ?thesis by auto
      qed
      from poll_loop_events [OF g2, of svc 0] p Inl
      obtain mid where m: "events s' = events ?s2 @ mid" "list_all is_read mid"
          "gist_in_use s' = Some gid"
        by auto
      have "events (snd (wait_for_2fa_code svc s))
              = events s @ [GistCreate] @ (Mail (CodeRequest u) # mid) @ [GistDelete gid]"
        using w Inl ex m e2 delete_2fa_gist_events [OF m(3)] by simp
      moreover have "GistDelete gid \<notin> set (Mail (CodeRequest u) # mid)"
        using nd [OF m(2)] by simp
      moreover have "fst (wait_for_2fa_code svc s) = Inr None" using w Inl ex by simp
      ultimately show ?thesis by blast
    qed
  qed
qed

lemma wait_for_2fa_code_without_address:
  assumes "truthy (github_token s)" and "create_reply svc = Created gid None"
  shows "wait_for_2fa_code svc s
           = (Inr None, (log GistCreate s)\<lparr>current_gist_id := Some gid\<rparr>)"
  using assms by (simp add: wait_for_2fa_code_def create_2fa_gist_def Let_def)

text \<open>
  Claim C3 on the code. The wait deletes the gist when a code is found, when the six polls
  run out and in its \<open>except Exception\<close> handler; it has no \<open>finally\<close>. As long as no
  signal arrives, every execution whose creation returned an id and a page address ends
  with the deletion request (\<open>wait_for_2fa_code_deletes_unless_signalled\<close>); a creation
  whose answer holds an id and no page address stores the id and returns without a
  deletion (\<open>wait_for_2fa_code_without_address\<close>). A \<open>KeyboardInterrupt\<close> that breaks the
  first sleep of the wait is an exception the handler does not catch: on
  \<open>interrupted_service\<close> the wait is left with the gist created, announced by mail and
  read once, and never deleted, its id still stored; \<open>run_scan\<close>, which catches the
  interrupt, then ends with the success result, and the calls of the whole run hold no
  deletion.
\<close>

theorem wait_for_2fa_code_interrupted_keeps_gist:
  "wait_for_2fa_code interrupted_service unattended_scanner
     = (Inl KeyboardInterrupt,
        \<lparr>github_token = Some ''token'', current_gist_id = Some ''g1'',
         events = [GistCreate, Mail (CodeRequest ''https://gist.github.com/g1''),
                   GistRead ''g1'']\<rparr>)
   \<and> run_scan stuck_browser interrupted_service silent_feed always_rate_limited
        unattended_scanner two_keys
       = (Inr True,
          \<lparr>github_token = Some ''token'', current_gist_id = Some ''g1'',
           events = [GistCreate, Mail (CodeRequest ''https://gist.github.com/g1''),
                     GistRead ''g1'']\<rparr>,
          two_keys)"
proof -
  have w: "wait_for_2fa_code interrupted_service unattended_scanner
     = (Inl KeyboardInterrupt,
        \<lparr>github_token = Some ''token'', current_gist_id = Some ''g1'',
         events = [GistCreate, Mail (CodeRequest ''https://gist.github.com/g1''),
                   GistRead ''g1'']\<rparr>)"
    by code_simp
  have a: "authenticate stuck_browser interrupted_service unattended_scanner
     = (case wait_for_2fa_code interrupted_service unattended_scanner of
          (Inl sg, s1) \<Rightarrow> (Inl sg, s1)
        | (Inr two_fa_code, s1) \<Rightarrow>
            (case two_fa_code of
               None \<Rightarrow> (Inr False, s1)
             | Some code \<Rightarrow>
                 if code = [] then (Inr False, s1)
                 else if enter_2fa_code stuck_browser code then (Inr True, s1)
                 else (Inr False, s1)))"
    by code_simp
  show ?thesis
    unfolding run_scan_def login_to_nextdoor_def a w
    by (simp add: w stuck_browser_def)
qed

section \<open>Properties of the extractor\<close>

lemma example_author_and_text:
  "author_and_text example_text
     = (''Jane Doe'', ''Need a reliable pool guy, anyone have recs?'')"
  by code_simp

lemma example_clean_text:
  "clean_text ''Need a reliable pool guy, anyone have recs?''
     = ''Need a reliable pool guy, anyone have recs?''"
  by code_simp

lemma example_no_alert: "\<not> py_in ''Traffic Alerts'' example_text" "example_text \<noteq> []"
  by code_simp+

lemma example_no_indicator:
  "\<not> list_ex (\<lambda>indicator. py_in indicator
                 (take 30 ''Need a reliable pool guy, anyone have recs?''))
       reply_indicators"
  by code_simp

text \<open>
  Claim C7. A page whose only post container has the text
  \<open>"Jane DoeStudio City \<cdot> 3 hr agoNeed a reliable pool guy, anyone have recs?2Bob SmithEncino"\<close>
  (with any link or none) yields exactly one post, with author \<open>"Jane Doe"\<close> and text
  \<open>"Need a reliable pool guy, anyone have recs?"\<close>: the reply fragment is cut off.
\<close>

theorem extract_example:
  "map (\<lambda>p. (author p, ptext p))
     (extract_nextdoor_posts
        (Some \<lparr>main_content = True,
               by_testid = [\<lparr>full_text = example_text, href = h\<rparr>],
               by_class = [], by_view_type = [], by_ai = []\<rparr>))
   = [(''Jane Doe'', ''Need a reliable pool guy, anyone have recs?'')]"
proof -
  let ?c = "\<lparr>full_text = example_text, href = h\<rparr>"
  obtain p where p: "extract_container ?c = Some p" "author p = ''Jane Doe''"
      "ptext p = ''Need a reliable pool guy, anyone have recs?''"
    using example_no_alert example_no_indicator
    by (simp add: extract_container_def example_author_and_text example_clean_text Let_def)
  then show ?thesis
    by (simp add: extract_nextdoor_posts_def post_containers_def)
qed

section \<open>Properties of login and search\<close>

lemma still_on_login: "py_in ''/login/'' ''https://nextdoor.com/login/?next=/news_feed/''"
  by code_simp

lemma enter_2fa_code_ignores_address:
  "length code = 6 \<Longrightarrow> enter_2fa_code b code =
     enter_digits (field_accepts b)
       (case code_inputs b of Some ids \<Rightarrow> sort ids | None \<Rightarrow> fallback_input_ids) 0 code"
  by (simp add: enter_2fa_code_def Let_def split: option.splits)

text \<open>
  Claim C5 on the code. \<open>_enter_2fa_code\<close> reads the address after the digits and returns
  \<open>True\<close> when it has left the login path, and then returns \<open>True\<close> as well when it has
  not: once the six digits are in their fields its result does not depend on the address
  (\<open>enter_2fa_code_ignores_address\<close>). On \<open>stuck_browser\<close>, whose address still contains
  \<open>/login/\<close> after the code \<open>123456\<close> from the gist has been entered, the code entry
  returns \<open>True\<close> and the authentication goes on to the search instead of failing.
\<close>

theorem authenticate_accepts_login_address:
  "url_after_code stuck_browser = Some ''https://nextdoor.com/login/?next=/news_feed/''
   \<and> py_in ''/login/'' ''https://nextdoor.com/login/?next=/news_feed/''
   \<and> fst (wait_for_2fa_code code_service unattended_scanner) = Inr (Some ''123456'')
   \<and> enter_2fa_code stuck_browser ''123456'' = True
   \<and> fst (authenticate stuck_browser code_service unattended_scanner) = Inr True"
proof -
  have w: "fst (wait_for_2fa_code code_service unattended_scanner) = Inr (Some ''123456'')"
    by code_simp
  have e: "enter_2fa_code stuck_browser ''123456'' = True"
    by (simp add: enter_2fa_code_def stuck_browser_def fallback_input_ids_def)
  have a: "fst (authenticate stuck_browser code_service unattended_scanner) = Inr True"
    by code_simp
  from w e a still_on_login show ?thesis by (simp add: stuck_browser_def)
qed

lemma search_for_term_without_box:
  "\<forall>selector\<in>set search_selectors. \<not> search_form b selector \<Longrightarrow>
     search_for_term b term is_first_search = False"
proof -
  assume "\<forall>selector\<in>set search_selectors. \<not> search_form b selector"
  then have "find (search_form b) search_selectors = None" by (simp add: find_None_iff)
  then show ?thesis by (simp add: search_for_term_def)
qed

lemma collect_and_report_without_box:
  "\<forall>selector\<in>set search_selectors. \<not> search_form b selector \<Longrightarrow>
     collect_and_report b fd gsvc s g = (True, s, g)"
  by (simp add: collect_and_report_def search_for_term_without_box Let_def)

text \<open>
  Claim C6, as the code has it. When no selector finds a search box, the search returns
  \<open>False\<close>, which the second part of the login function only prints: it harvests and
  classifies nothing, sends no mail, and returns \<open>True\<close>. A run whose driver starts and
  whose authentication succeeds therefore ends with the success result, and its calls are
  those of the authentication alone.
\<close>

theorem search_failure_completes_silently:
  assumes "\<forall>selector\<in>set search_selectors. \<not> search_form b selector"
  shows "search_for_term b term is_first_search = False
       \<and> collect_and_report b fd gsvc s g = (True, s, g)
       \<and> (setup_ok b \<and> fst (authenticate b svc s) = Inr True \<longrightarrow>
            run_scan b svc fd gsvc s g = (Inr True, snd (authenticate b svc s), g))"
proof -
  have "run_scan b svc fd gsvc s g = (Inr True, snd (authenticate b svc s), g)"
    if ok: "setup_ok b" and admitted: "fst (authenticate b svc s) = Inr True"
  proof -
    obtain s1 where a: "authenticate b svc s = (Inr True, s1)"
      using admitted by (cases "authenticate b svc s") auto
    show ?thesis
      using ok a collect_and_report_without_box [OF assms, of fd gsvc s1 g]
      by (simp add: run_scan_def login_to_nextdoor_def)
  qed
  with search_for_term_without_box [OF assms] collect_and_report_without_box [OF assms]
  show ?thesis by blast
qed

theorem search_failure_completes_silently_witness:
  "find (search_form signed_in_browser) search_selectors = None
   \<and> setup_ok signed_in_browser
   \<and> fst (authenticate signed_in_browser code_service unattended_scanner) = Inr True
   \<and> fst (run_scan signed_in_browser code_service silent_feed always_rate_limited
             unattended_scanner two_keys) = Inr True
   \<and> events (fst (snd (run_scan signed_in_browser code_service silent_feed always_rate_limited
             unattended_scanner two_keys))) = []"
proof -
  have h: "\<forall>selector\<in>set search_selectors. \<not> search_form signed_in_browser selector"
    by (simp add: signed_in_browser_def)
  have f: "find (search_form signed_in_browser) search_selectors = None"
    using h by (simp add: find_None_iff)
  have a: "authenticate signed_in_browser code_service unattended_scanner
             = (Inr True, unattended_scanner)"
    by code_simp
  have s: "setup_ok signed_in_browser" by (simp add: signed_in_browser_def)
  from search_failure_completes_silently [OF h, of _ _ silent_feed always_rate_limited
      unattended_scanner two_keys code_service] a s f
  show ?thesis by (simp add: unattended_scanner_def)
qed

text \<open>
  The claim as stated fails on a session already admitted to the feed whose page has no
  search box: the run returns the success result and no call has left the process.
\<close>

theorem search_failure_counterexample:
  "find (search_form signed_in_browser) search_selectors = None
   \<and> run_scan signed_in_browser code_service silent_feed always_rate_limited
        unattended_scanner two_keys
       = (Inr True, unattended_scanner, two_keys)
   \<and> events unattended_scanner = []"
proof -
  have h: "\<forall>selector\<in>set search_selectors. \<not> search_form signed_in_browser selector"
    by (simp add: signed_in_browser_def)
  have f: "find (search_form signed_in_browser) search_selectors = None"
    using h by (simp add: find_None_iff)
  have a: "authenticate signed_in_browser code_service unattended_scanner
             = (Inr True, unattended_scanner)"
    by code_simp
  have "run_scan signed_in_browser code_service silent_feed always_rate_limited
        unattended_scanner two_keys = (Inr True, unattended_scanner, two_keys)"
    using a collect_and_report_without_box [OF h]
    by (simp add: run_scan_def login_to_nextdoor_def signed_in_browser_def)
  with f show ?thesis by (simp add: unattended_scanner_def)
qed

section \<open>Properties of the report\<close>

lemma py_title_examples:
  "py_title ''pool_cleaning'' = uni ''Pool_Cleaning''"
  "py_title ''pool cleaning'' = uni ''Pool Cleaning''"
  "py_title (''caf'' @ [CHR 0xE9] @ ''x'') = uni (''Caf'' @ [CHR 0xE9] @ ''x'')"
  "py_title ''HVAC repair'' = uni ''Hvac Repair''"
  by (simp_all add: py_title_def uni_def is_cased_def title_char_def lower_char_def)









text \<open>
  A verdict whose service type is not a string (the classifier answered \<open>null\<close>) makes
  the report raise; the run then ends with the failure result and no report is mailed.
\<close>

lemma report_raises_on_null_service_type:
  "generate_report day_of_week generated [null_service] = Inl AttributeError"
  by (simp add: generate_report_def null_service_def service_label_def)

end
